theory Spec2Isabelle
  imports Main
begin

section \<open>JavaScript values carried by messages\<close>

text \<open>
  Message payloads, handler results and thrown values are JavaScript values. Numbers are
  abstracted to the integers plus \<open>NaN\<close>; only their truthiness and their \<open>typeof\<close> are
  ever inspected by the connector. An object is its list of own properties.
\<close>

datatype jsval =
    JUndefined
  | JNull
  | JBool bool
  | JNum int
  | JNaN
  | JStr string
  | JArr "jsval list"
  | JObj "(string \<times> jsval) list"
  | JFun nat

text \<open>
  What can be thrown: a TypeError of the engine, an \<open>Error\<close> with its message, a
  \<open>DOMException\<close> with its name (raised by an endpoint's \<open>postMessage\<close>), or any value
  thrown by a handler.
\<close>

datatype exn =
    TypeError
  | Error string
  | DOMException string
  | Thrown jsval

text \<open>The truthiness test of \<open>if (v)\<close>, \<open>!v\<close> and \<open>v && ...\<close>.\<close>

fun truthy :: "jsval \<Rightarrow> bool" where
  "truthy JUndefined = False"
| "truthy JNull = False"
| "truthy (JBool b) = b"
| "truthy (JNum n) = (n \<noteq> 0)"
| "truthy JNaN = False"
| "truthy (JStr s) = (s \<noteq> [])"
| "truthy (JArr xs) = True"
| "truthy (JObj kvs) = True"
| "truthy (JFun f) = True"

fun js_typeof :: "jsval \<Rightarrow> string" where
  "js_typeof JUndefined = ''undefined''"
| "js_typeof JNull = ''object''"
| "js_typeof (JBool b) = ''boolean''"
| "js_typeof (JNum n) = ''number''"
| "js_typeof JNaN = ''number''"
| "js_typeof (JStr s) = ''string''"
| "js_typeof (JArr xs) = ''object''"
| "js_typeof (JObj kvs) = ''object''"
| "js_typeof (JFun f) = ''function''"

text \<open>
  Property read \<open>v.k\<close> for the property names the connector uses (none of them exists on
  an array, a string or a function): reading from \<open>null\<close> or \<open>undefined\<close> throws a
  TypeError, a missing property reads as \<open>undefined\<close>.
\<close>

fun get_prop :: "jsval \<Rightarrow> string \<Rightarrow> exn + jsval" where
  "get_prop JUndefined k = Inl TypeError"
| "get_prop JNull k = Inl TypeError"
| "get_prop (JObj kvs) k = (case map_of kvs k of None \<Rightarrow> Inr JUndefined | Some v \<Rightarrow> Inr v)"
| "get_prop v k = Inr JUndefined"

text \<open>The operator \<open>k in v\<close>: a TypeError unless \<open>v\<close> is an object.\<close>

fun has_prop :: "string \<Rightarrow> jsval \<Rightarrow> exn + bool" where
  "has_prop k (JObj kvs) = Inr (map_of kvs k \<noteq> None)"
| "has_prop k (JArr xs) = Inr False"
| "has_prop k (JFun f) = Inr False"
| "has_prop k v = Inl TypeError"

subsection \<open>Numbers in template strings\<close>

text \<open>
  The two numeric options are taken to be integers. \<open>show_int\<close> writes an integer in
  decimal, which is how a template literal renders an integer number of magnitude up to
  \<open>2^53 - 1\<close>; larger numbers are rendered differently by the engine (rounded, and in
  exponent notation from \<open>1e21\<close> on).
\<close>

definition digit_char :: "nat \<Rightarrow> char" where
  "digit_char d = ''0123456789'' ! d"

fun show_nat :: "nat \<Rightarrow> string" where
  "show_nat n = (if n < 10 then [digit_char n] else show_nat (n div 10) @ [digit_char (n mod 10)])"

declare show_nat.simps [simp del]

definition show_int :: "int \<Rightarrow> string" where
  "show_int i = (if i < 0 then CHR ''-'' # show_nat (nat (- i)) else show_nat (nat i))"

section \<open>The connector and its environment\<close>

datatype status = Connecting | Connected | Disconnected | StatusError

text \<open>
  What a registered message handler does with a request, seen from the \<open>await\<close> in
  \<open>handleIncomingMessage\<close>. \<open>Returns\<close>: it returns a value, or a promise that is
  already fulfilled with that value, so that the code after the \<open>await\<close> runs as soon
  as the listener has returned, before anything else happens. \<open>Throws\<close>: the call
  throws, or returns a promise that is already rejected. \<open>Later\<close>: it returns a promise
  that settles at some later time, fulfilled with a value or rejected with a reason; the
  rest of \<open>handleIncomingMessage\<close> runs then. \<open>NeverSettles\<close>: it returns a promise
  that never settles. Handlers and status listeners are taken not to call back into the
  connector.
\<close>

datatype settlement = Fulfils jsval | Fails jsval

datatype outcome = Returns jsval | Throws jsval | Later settlement | NeverSettles

type_synonym handler = "jsval \<Rightarrow> outcome"

text \<open>
  The function objects that are passed to \<open>addEventListener\<close> and
  \<open>removeEventListener\<close>. Each \<open>responseHandler\<close> closure is a fresh object; it is
  identified by the promise it resolves and carries the \<open>messageId\<close> it closes over.
  \<open>this.handleIncomingMessage.bind(this)\<close> is a function object of its own, different
  from the method \<open>this.handleIncomingMessage\<close> it wraps.
\<close>

datatype listener =
    ResponseHandler nat string
  | Bound_handleIncomingMessage
  | Method_handleIncomingMessage

record message_event =
  source :: "nat option"
  data :: jsval

datatype pstate = Pending | Fulfilled jsval | Rejected exn

text \<open>
  The state of the promise \<open>withTimeout(..).then(..).catch(..)\<close> that \<open>connect\<close>
  stores in \<open>_pendingHandshake\<close>. Its \<open>then\<close> callback returns nothing, so the chain
  fulfils with \<open>undefined\<close>.
\<close>

datatype hstate = HPending | HFulfilled | HRejected exn

record posted =
  target :: nat
  msg :: jsval
  targetOrigin :: "string option"

datatype console_entry = ConsoleError string exn

text \<open>
  The read-only fields of the connector: \<open>ehrWindow\<close>, \<open>params\<close> and \<open>options\<close>.
  Windows (event targets) are named by numbers; \<open>globalWindow\<close> is the global \<open>window\<close>
  of the page the connector runs in. \<open>endpoint\<close> is the behaviour of
  \<open>ehrWindow.postMessage\<close>, which is not code of the connector: given a message and a
  target origin (\<open>None\<close> when it is called with the message alone) it either returns or
  throws, for instance a \<open>DataCloneError\<close> for a message that cannot be cloned or a
  \<open>SyntaxError\<close> for a target origin that is not one.
\<close>

record config =
  ehrWindow :: nat
  origin :: "string option"
  handle :: string
  autoInitialize :: bool
  timeoutMs :: int
  maxRetries :: int
  endpoint :: "jsval \<Rightarrow> string option \<Rightarrow> exn option"

definition globalWindow :: nat where
  "globalWindow = 0"

text \<open>
  The mutable state: the private fields of the connector (\<open>status\<close>, \<open>statusListeners\<close>,
  \<open>handlers\<close>, \<open>pendingHandshake\<close>) and the part of the environment it acts on: the
  \<open>message\<close> listeners of every event target, the promises created by \<open>sendMessage\<close>,
  the races set up by \<open>withTimeout\<close> (each with the delay of its timer), the handshake
  chains built on them, the runs of \<open>handleIncomingMessage\<close> that are suspended at
  their \<open>await\<close> (each with the request it is handling and with what the handler's
  promise will settle to), the calls of the endpoint's \<open>postMessage\<close> made so far
  (\<open>outbox\<close>, whether they returned or threw), the random source behind
  \<open>generateMessageId\<close> (\<open>rng\<close> read at position \<open>drawn\<close>), and logs of what was observed
  from outside: status notifications, handler invocations, \<open>connect\<close> calls,
  \<open>console.error\<close> output and exceptions that escaped an event listener.
  \<open>console.debug\<close> output is not modelled.
\<close>

record world =
  status :: status
  statusListeners :: "nat list"
  handlers :: "(string \<times> handler) list"
  pendingHandshake :: "nat option"
  listeners :: "nat \<Rightarrow> listener list"
  promises :: "pstate list"
  races :: "nat \<Rightarrow> (int \<times> pstate) option"
  chains :: "nat \<Rightarrow> hstate option"
  suspended :: "(jsval \<times> settlement) list"
  outbox :: "posted list"
  rng :: "nat \<Rightarrow> string"
  drawn :: nat
  notified :: "(nat \<times> status) list"
  invoked :: "jsval list"
  connectCalls :: nat
  console :: "console_entry list"
  uncaught :: "exn list"

subsection \<open>Event targets\<close>

definition addEventListener :: "nat \<Rightarrow> listener \<Rightarrow> world \<Rightarrow> world" where
  "addEventListener t l w =
     (if l \<in> set (listeners w t) then w
      else w\<lparr>listeners := (listeners w)(t := listeners w t @ [l])\<rparr>)"

definition removeEventListener :: "nat \<Rightarrow> listener \<Rightarrow> world \<Rightarrow> world" where
  "removeEventListener t l w = w\<lparr>listeners := (listeners w)(t := removeAll l (listeners w t))\<rparr>"

subsection \<open>Status and identifiers\<close>

definition isConnectionReady :: "world \<Rightarrow> bool" where
  "isConnectionReady w = (status w = Connected)"

definition generateMessageId :: "world \<Rightarrow> string \<times> world" where
  "generateMessageId w = (rng w (drawn w), w\<lparr>drawn := Suc (drawn w)\<rparr>)"

definition addStatusListener :: "nat \<Rightarrow> world \<Rightarrow> world" where
  "addStatusListener l w =
     (if l \<in> set (statusListeners w) then w
      else w\<lparr>statusListeners := statusListeners w @ [l]\<rparr>)"

definition removeStatusListener :: "nat \<Rightarrow> world \<Rightarrow> bool \<times> world" where
  "removeStatusListener l w =
     (l \<in> set (statusListeners w), w\<lparr>statusListeners := removeAll l (statusListeners w)\<rparr>)"

definition setStatus :: "status \<Rightarrow> world \<Rightarrow> world" where
  "setStatus st w =
     w\<lparr>status := st, notified := notified w @ map (\<lambda>l. (l, st)) (statusListeners w)\<rparr>"

subsection \<open>Sending\<close>

text \<open>
  \<open>postMessage\<close> hands the message to the peer endpoint, with the configured origin
  when that is a non-empty string. The call is recorded in the outbox; the second
  component is the exception thrown by the endpoint's \<open>postMessage\<close>, if any.
\<close>

definition postMessage :: "config \<Rightarrow> jsval \<Rightarrow> world \<Rightarrow> world \<times> exn option" where
  "postMessage cfg message w =
     (if (case origin cfg of None \<Rightarrow> False | Some s \<Rightarrow> s \<noteq> [])
      then (w\<lparr>outbox := outbox w @ [\<lparr>target = ehrWindow cfg, msg = message, targetOrigin = origin cfg\<rparr>]\<rparr>,
            endpoint cfg message (origin cfg))
      else (w\<lparr>outbox := outbox w @ [\<lparr>target = ehrWindow cfg, msg = message, targetOrigin = None\<rparr>]\<rparr>,
            endpoint cfg message None))"

definition request_message :: "config \<Rightarrow> string \<Rightarrow> jsval \<Rightarrow> string \<Rightarrow> jsval" where
  "request_message cfg messageType payload messageId =
     JObj [(''messageType'', JStr messageType),
           (''payload'', payload),
           (''messageId'', JStr messageId),
           (''messagingHandle'', JStr (handle cfg))]"

text \<open>
  \<open>sendMessage\<close> up to the point where it hands back its promise: the identifier is
  drawn, the promise is created (its executor takes \<open>resolve\<close> only), the response
  listener is added to the global \<open>window\<close> and the request is posted. The listener
  is added and the request is posted inside the executor of the promise, so an
  exception thrown while posting rejects the promise instead of leaving \<open>sendMessage\<close>.
  The result is the index of the new promise.
\<close>

definition sendMessage :: "config \<Rightarrow> string \<Rightarrow> jsval \<Rightarrow> world \<Rightarrow> nat \<times> world" where
  "sendMessage cfg messageType payload0 w =
     (let payload = (if payload0 = JUndefined then JObj [] else payload0);
          (messageId, w1) = generateMessageId w;
          p = length (promises w1);
          w2 = w1\<lparr>promises := promises w1 @ [Pending]\<rparr>;
          message = request_message cfg messageType payload messageId;
          w3 = addEventListener globalWindow (ResponseHandler p messageId) w2;
          (w4, thrown) = postMessage cfg message w3
      in case thrown of
           None \<Rightarrow> (p, w4)
         | Some e \<Rightarrow> (p, w4\<lparr>promises := (promises w4)[p := Rejected e]\<rparr>))"

subsection \<open>Timeouts and the handshake chain\<close>

text \<open>
  \<open>withTimeout(promise, ms)\<close> for the promise with index \<open>p\<close>: a timer is started and
  the result is the race between the promise and the timer. The race is named by the
  promise it wraps; a promise that is already settled decides the race at once.
\<close>

definition withTimeout :: "nat \<Rightarrow> int \<Rightarrow> world \<Rightarrow> world" where
  "withTimeout p ms w =
     w\<lparr>races := (races w)(p \<mapsto> (ms, if p < length (promises w) then promises w ! p else Pending))\<rparr>"

definition timeout_error :: "int \<Rightarrow> exn" where
  "timeout_error ms = Error (''Operation timed out after '' @ show_int ms @ '' ms'')"

text \<open>
  The two callbacks that \<open>connect\<close> chains onto the race of a handshake, together with
  the settling of the chain. \<open>handshake_then\<close> runs when the race fulfils,
  \<open>handshake_catch\<close> when it rejects.
\<close>

definition handshake_then :: "nat \<Rightarrow> world \<Rightarrow> world" where
  "handshake_then p w =
     (if chains w p = Some HPending
      then (setStatus Connected w)\<lparr>chains := (chains w)(p \<mapsto> HFulfilled)\<rparr>
      else w)"

definition handshake_catch :: "nat \<Rightarrow> exn \<Rightarrow> world \<Rightarrow> world" where
  "handshake_catch p reason w =
     (if chains w p = Some HPending then
        (if status w \<noteq> Connecting then w\<lparr>chains := (chains w)(p \<mapsto> HFulfilled)\<rparr>
         else (setStatus StatusError w)\<lparr>chains := (chains w)(p \<mapsto> HRejected reason)\<rparr>)
      else w)"

text \<open>
  The timer of the race on promise \<open>p\<close> fires: a race that is still open rejects with
  the timeout error, and what is chained onto it runs.
\<close>

definition timer_fires :: "nat \<Rightarrow> world \<Rightarrow> world" where
  "timer_fires p w =
     (case races w p of
        Some (ms, Pending) \<Rightarrow>
          handshake_catch p (timeout_error ms)
            (w\<lparr>races := (races w)(p \<mapsto> (ms, Rejected (timeout_error ms)))\<rparr>)
      | _ \<Rightarrow> w)"

text \<open>
  The callbacks chained onto a race that was decided when it was set up (by a request
  that could not be posted) do not run inside \<open>connect\<close>: they run once the code that
  called \<open>connect\<close> has given up control. \<open>race_settled\<close> is that moment.
\<close>

definition race_settled :: "nat \<Rightarrow> world \<Rightarrow> world" where
  "race_settled p w =
     (case races w p of
        Some (ms, Fulfilled v) \<Rightarrow> handshake_then p w
      | Some (ms, Rejected e) \<Rightarrow> handshake_catch p e w
      | _ \<Rightarrow> w)"

subsection \<open>Receiving a response\<close>

text \<open>
  \<open>resolve(response)\<close> of the promise of a request. Only a pending promise changes. If
  a race on it is still open, the race fulfils and what is chained onto it runs.
\<close>

definition resolve :: "nat \<Rightarrow> jsval \<Rightarrow> world \<Rightarrow> world" where
  "resolve p v w =
     (if p < length (promises w) \<and> promises w ! p = Pending then
        (let w1 = w\<lparr>promises := (promises w)[p := Fulfilled v]\<rparr>
         in case races w1 p of
              Some (ms, Pending) \<Rightarrow> handshake_then p (w1\<lparr>races := (races w1)(p \<mapsto> (ms, Fulfilled v))\<rparr>)
            | _ \<Rightarrow> w1)
      else w)"

text \<open>
  The closure \<open>responseHandler\<close> of the request with promise \<open>p\<close> and identifier
  \<open>messageId\<close>. The second component is the exception that escapes the listener, if any.
\<close>

definition responseHandler ::
  "config \<Rightarrow> nat \<Rightarrow> string \<Rightarrow> message_event \<Rightarrow> world \<Rightarrow> world \<times> exn option" where
  "responseHandler cfg p messageId event w =
     (let response = data event in
      case get_prop response ''responseToMessageId'' of
        Inl e \<Rightarrow> (w, Some e)
      | Inr r \<Rightarrow>
          if r = JStr messageId then
            (let w1 = resolve p response w in
             case get_prop response ''additionalResponseExpected'' of
               Inl e \<Rightarrow> (w1, Some e)
             | Inr additional \<Rightarrow>
                 if \<not> truthy additional
                 then (removeEventListener (ehrWindow cfg) (ResponseHandler p messageId) w1, None)
                 else (w1, None))
          else (w, None))"

subsection \<open>Handler table\<close>

fun map_set :: "string \<Rightarrow> 'v \<Rightarrow> (string \<times> 'v) list \<Rightarrow> (string \<times> 'v) list" where
  "map_set k v [] = [(k, v)]"
| "map_set k v ((k', v') # kvs) = (if k' = k then (k, v) # kvs else (k', v') # map_set k v kvs)"

definition on :: "string \<Rightarrow> handler \<Rightarrow> world \<Rightarrow> world" where
  "on messageType h w = w\<lparr>handlers := map_set messageType h (handlers w)\<rparr>"

definition removeHandler :: "string \<Rightarrow> world \<Rightarrow> bool \<times> world" where
  "removeHandler messageType w =
     (map_of (handlers w) messageType \<noteq> None,
      w\<lparr>handlers := filter (\<lambda>kv. fst kv \<noteq> messageType) (handlers w)\<rparr>)"

definition hasHandler :: "string \<Rightarrow> world \<Rightarrow> bool" where
  "hasHandler messageType w = (map_of (handlers w) messageType \<noteq> None)"

definition getRegisteredMessageTypes :: "world \<Rightarrow> string list" where
  "getRegisteredMessageTypes w = map fst (handlers w)"

definition getHandlerCount :: "world \<Rightarrow> nat" where
  "getHandlerCount w = length (handlers w)"

text \<open>\<open>this._handlers.get(messageType)\<close>: the keys of the table are strings.\<close>

fun handlers_get :: "(string \<times> handler) list \<Rightarrow> jsval \<Rightarrow> handler option" where
  "handlers_get hs (JStr s) = map_of hs s"
| "handlers_get hs v = None"

subsection \<open>Inbound dispatch\<close>

definition response_message :: "string \<Rightarrow> jsval \<Rightarrow> jsval \<Rightarrow> jsval" where
  "response_message messageId responseTo result =
     JObj [(''messageId'', JStr messageId),
           (''responseToMessageId'', responseTo),
           (''payload'', result),
           (''additionalResponseExpected'', JBool False)]"

text \<open>
  What \<open>handleIncomingMessage\<close> does after its \<open>await\<close>, once the handler's result is
  there: a result that is a non-null object is sent back under an identifier drawn at
  that moment. The second component is the exception thrown on the way, if any.
\<close>

definition respond :: "config \<Rightarrow> jsval \<Rightarrow> jsval \<Rightarrow> world \<Rightarrow> world \<times> exn option" where
  "respond cfg message result w =
     (if truthy result \<and> js_typeof result = ''object'' then
        (let (messageId, w2) = generateMessageId w in
         case get_prop message ''messageId'' of
           Inl e \<Rightarrow> (w2, Some e)
         | Inr inboundId \<Rightarrow> postMessage cfg (response_message messageId inboundId result) w2)
      else (w, None))"

text \<open>
  The body of the \<open>try\<close> block of \<open>handleIncomingMessage\<close> up to the point where the
  function returns or is suspended at its \<open>await\<close>. The second component is the
  exception thrown inside the block, if any; the state is the one reached when it was
  thrown.
\<close>

definition handleIncomingMessage_try ::
  "config \<Rightarrow> message_event \<Rightarrow> world \<Rightarrow> world \<times> exn option" where
  "handleIncomingMessage_try cfg event w =
     (if source event = Some (ehrWindow cfg) then (w, None)
      else
        let message = data event in
        if \<not> truthy message \<or> js_typeof message \<noteq> ''object'' then (w, None)
        else
          case get_prop message ''messagingHandle'' of
            Inl e \<Rightarrow> (w, Some e)
          | Inr mh \<Rightarrow>
              if mh \<noteq> JStr (handle cfg) then (w, None)
              else
                case has_prop ''messageType'' message of
                  Inl e \<Rightarrow> (w, Some e)
                | Inr False \<Rightarrow> (w, None)
                | Inr True \<Rightarrow>
                    (case get_prop message ''messageType'' of
                       Inl e \<Rightarrow> (w, Some e)
                     | Inr messageType \<Rightarrow>
                         (case handlers_get (handlers w) messageType of
                            None \<Rightarrow> (w, None)
                          | Some h \<Rightarrow>
                              (let w1 = w\<lparr>invoked := invoked w @ [message]\<rparr> in
                               case h message of
                                 NeverSettles \<Rightarrow> (w1, None)
                               | Later s \<Rightarrow> (w1\<lparr>suspended := suspended w1 @ [(message, s)]\<rparr>, None)
                               | Throws e \<Rightarrow> (w1, Some (Thrown e))
                               | Returns result \<Rightarrow> respond cfg message result w1))))"

text \<open>The \<open>catch\<close> block logs the error; nothing leaves the function.\<close>

definition caught :: "world \<times> exn option \<Rightarrow> world \<times> exn option" where
  "caught r =
     (case r of
        (w', None) \<Rightarrow> (w', None)
      | (w', Some error) \<Rightarrow>
          (w'\<lparr>console := console w' @ [ConsoleError ''Error handling incoming message:'' error]\<rparr>,
           None))"

definition handleIncomingMessage :: "config \<Rightarrow> message_event \<Rightarrow> world \<Rightarrow> world \<times> exn option" where
  "handleIncomingMessage cfg event w = caught (handleIncomingMessage_try cfg event w)"

text \<open>
  The promise of the \<open>i\<close>-th suspended run settles: the run leaves its \<open>await\<close>, inside
  the same \<open>try\<close> block, with the handler's result or with the rejection thrown.
\<close>

definition handler_settles :: "config \<Rightarrow> nat \<Rightarrow> world \<Rightarrow> world" where
  "handler_settles cfg i w =
     (if i < length (suspended w) then
        (let (message, s) = suspended w ! i;
             w1 = w\<lparr>suspended := take i (suspended w) @ drop (Suc i) (suspended w)\<rparr>
         in fst (caught (case s of
                           Fulfils result \<Rightarrow> respond cfg message result w1
                         | Fails e \<Rightarrow> (w1, Some (Thrown e)))))
      else w)"

subsection \<open>Delivery of a message event to the global window\<close>

text \<open>
  The method \<open>handleIncomingMessage\<close> itself is never registered as a listener; only its
  bound copy is.
\<close>

fun run_listener :: "config \<Rightarrow> listener \<Rightarrow> message_event \<Rightarrow> world \<Rightarrow> world \<times> exn option" where
  "run_listener cfg (ResponseHandler p messageId) event w = responseHandler cfg p messageId event w"
| "run_listener cfg Bound_handleIncomingMessage event w = handleIncomingMessage cfg event w"
| "run_listener cfg Method_handleIncomingMessage event w = (w, None)"

definition report :: "world \<times> exn option \<Rightarrow> world" where
  "report r = (case r of (w, None) \<Rightarrow> w | (w, Some e) \<Rightarrow> w\<lparr>uncaught := uncaught w @ [e]\<rparr>)"

text \<open>
  Event dispatch walks the listeners that were registered when it started, in
  registration order, and skips one that has been removed in the meantime.
\<close>

fun run_listeners :: "config \<Rightarrow> listener list \<Rightarrow> message_event \<Rightarrow> world \<Rightarrow> world" where
  "run_listeners cfg [] event w = w"
| "run_listeners cfg (l # ls) event w =
     run_listeners cfg ls event
       (if l \<in> set (listeners w globalWindow) then report (run_listener cfg l event w) else w)"

definition deliver :: "config \<Rightarrow> message_event \<Rightarrow> world \<Rightarrow> world" where
  "deliver cfg event w = run_listeners cfg (listeners w globalWindow) event w"

subsection \<open>Handshake\<close>

text \<open>
  \<open>connect\<close> up to its \<open>await\<close>. The result names the handshake chain the call waits
  for: the call fulfils when that chain fulfils and rejects when it rejects.
\<close>

definition connect :: "config \<Rightarrow> world \<Rightarrow> nat \<times> world" where
  "connect cfg w0 =
     (let w = w0\<lparr>connectCalls := Suc (connectCalls w0)\<rparr> in
      case (if status w = Connecting then pendingHandshake w else None) of
        Some p \<Rightarrow> (p, w)
      | None \<Rightarrow>
          (let w1 = setStatus Connecting w;
               (p, w2) = sendMessage cfg ''status.handshake'' JUndefined w1;
               w3 = withTimeout p (timeoutMs cfg) w2
           in (p, w3\<lparr>chains := (chains w3)(p \<mapsto> HPending), pendingHandshake := Some p\<rparr>)))"

subsection \<open>Retry\<close>

text \<open>
  \<open>connectWithRetry\<close> waits for each \<open>connect\<close> call in turn, so what it does depends
  on what the environment does during each attempt: nothing until the timer fires, or
  the delivery of one message event before the timer fires. \<open>connect_attempt\<close> is one
  \<open>connect\<close> call together with that, and its result is how the awaited chain ended.
  The wait begins by giving up control, so a race that was decided at once settles
  before anything is delivered.
\<close>

datatype attempt = TimesOut | Answered message_event

datatype 'a completion = Resolves 'a | Rejects exn | Hangs

definition connect_attempt :: "config \<Rightarrow> attempt \<Rightarrow> world \<Rightarrow> unit completion \<times> world" where
  "connect_attempt cfg a w =
     (let (p, w0) = connect cfg w;
          w1 = race_settled p w0;
          w2 = (case a of TimesOut \<Rightarrow> w1 | Answered event \<Rightarrow> deliver cfg event w1);
          w3 = timer_fires p w2
      in case chains w3 p of
           Some HFulfilled \<Rightarrow> (Resolves (), w3)
         | Some (HRejected e) \<Rightarrow> (Rejects e, w3)
         | _ \<Rightarrow> (Hangs, w3))"

definition retries_exhausted :: "config \<Rightarrow> exn" where
  "retries_exhausted cfg =
     Error (''Failed to establish connection after '' @ show_int (maxRetries cfg) @ '' retries'')"

function connectWithRetry_loop ::
  "config \<Rightarrow> (nat \<Rightarrow> attempt) \<Rightarrow> nat \<Rightarrow> world \<Rightarrow> unit completion \<times> world" where
  "connectWithRetry_loop cfg env retries w =
     (if int retries < maxRetries cfg then
        (case connect_attempt cfg (env retries) w of
           (Resolves u, w') \<Rightarrow> (Resolves (), w')
         | (Rejects e, w') \<Rightarrow> connectWithRetry_loop cfg env (Suc retries) w'
         | (Hangs, w') \<Rightarrow> (Hangs, w'))
      else (Rejects (retries_exhausted cfg), w))"
  by pat_completeness auto
termination
  by (relation "measure (\<lambda>(cfg, env, retries, w). nat (maxRetries cfg - int retries))") auto

declare connectWithRetry_loop.simps [simp del]

definition connectWithRetry :: "config \<Rightarrow> (nat \<Rightarrow> attempt) \<Rightarrow> world \<Rightarrow> unit completion \<times> world" where
  "connectWithRetry cfg env w = connectWithRetry_loop cfg env 0 w"

definition ensureConnection :: "config \<Rightarrow> (nat \<Rightarrow> attempt) \<Rightarrow> world \<Rightarrow> unit completion \<times> world" where
  "ensureConnection cfg env w =
     (case (if status w \<noteq> Connected then connectWithRetry cfg env w else (Resolves (), w)) of
        (Resolves u, w') \<Rightarrow>
          if status w' = StatusError then (Rejects (Error ''Connection error''), w')
          else (Resolves (), w')
      | r \<Rightarrow> r)"

subsection \<open>Construction and teardown\<close>

definition setupMessageListener :: "world \<Rightarrow> world" where
  "setupMessageListener w = addEventListener globalWindow Bound_handleIncomingMessage w"

text \<open>
  The constructor, on a page whose window has no message listeners yet. With
  \<open>autoInitialize\<close> it starts \<open>connectWithRetry\<close> without waiting for it; what runs
  before the constructor returns is the first \<open>connect\<close> call, if the loop is entered
  at all.
\<close>

definition new_connector :: "config \<Rightarrow> (nat \<Rightarrow> string) \<Rightarrow> world" where
  "new_connector cfg r =
     (let w = setupMessageListener
                \<lparr>status = Disconnected, statusListeners = [], handlers = [],
                 pendingHandshake = None, listeners = (\<lambda>t. []), promises = [],
                 races = (\<lambda>p. None), chains = (\<lambda>p. None), suspended = [],
                 outbox = [], rng = r, drawn = 0, notified = [],
                 invoked = [], connectCalls = 0, console = [], uncaught = []\<rparr>
      in if autoInitialize cfg \<and> 0 < maxRetries cfg then snd (connect cfg w) else w)"

definition cleanup :: "world \<Rightarrow> world" where
  "cleanup w =
     (removeEventListener globalWindow Method_handleIncomingMessage w)
       \<lparr>statusListeners := [], handlers := []\<rparr>"

definition close :: "config \<Rightarrow> world \<Rightarrow> world" where
  "close cfg w = cleanup (snd (sendMessage cfg ''ui.close'' JUndefined w))"

subsection \<open>Runs of the connector\<close>

text \<open>
  What can happen to a connector, one step at a time: calls of its public methods, the
  delivery of a message event to the window, the firing of the timer of a race, the
  settling of a race that was decided at once, and the settling of the promise of a
  suspended handler.
\<close>

datatype action =
    Connect
  | SendMessage string jsval
  | Deliver message_event
  | TimerFires nat
  | RaceSettled nat
  | HandlerSettles nat
  | On string handler
  | RemoveHandler string
  | AddStatusListener nat
  | RemoveStatusListener nat
  | Close

fun step :: "config \<Rightarrow> action \<Rightarrow> world \<Rightarrow> world" where
  "step cfg Connect w = snd (connect cfg w)"
| "step cfg (SendMessage messageType payload) w = snd (sendMessage cfg messageType payload w)"
| "step cfg (Deliver event) w = deliver cfg event w"
| "step cfg (TimerFires p) w = timer_fires p w"
| "step cfg (RaceSettled p) w = race_settled p w"
| "step cfg (HandlerSettles i) w = handler_settles cfg i w"
| "step cfg (On messageType h) w = on messageType h w"
| "step cfg (RemoveHandler messageType) w = snd (removeHandler messageType w)"
| "step cfg (AddStatusListener l) w = addStatusListener l w"
| "step cfg (RemoveStatusListener l) w = snd (removeStatusListener l w)"
| "step cfg Close w = close cfg w"

fun exec :: "config \<Rightarrow> action list \<Rightarrow> world \<Rightarrow> world" where
  "exec cfg [] w = w"
| "exec cfg (a # as) w = exec cfg as (step cfg a w)"

section \<open>Auxiliary notions for the proofs\<close>

subsection \<open>Projections of the state\<close>

text \<open>
  What inbound dispatch reads and writes: the handler table, the random source, the
  outbox, the logs of handler invocations and of \<open>console.error\<close>, and the suspended
  runs.
\<close>

definition dispatch_view ::
  "world \<Rightarrow> (string \<times> handler) list \<times> (nat \<Rightarrow> string) \<times> nat \<times> posted list \<times> jsval list
     \<times> console_entry list \<times> (jsval \<times> settlement) list" where
  "dispatch_view w = (handlers w, rng w, drawn w, outbox w, invoked w, console w, suspended w)"

text \<open>What the handshake reads and writes, apart from the races.\<close>

definition handshake_view :: "world \<Rightarrow> status \<times> nat option \<times> (nat \<Rightarrow> hstate option) \<times> pstate list \<times> nat \<times> (nat \<times> status) list" where
  "handshake_view w = (status w, pendingHandshake w, chains w, promises w, connectCalls w, notified w)"

subsection \<open>What dispatch sends and logs\<close>



subsection \<open>Invariants of the states a connector can reach\<close>

text \<open>
  The bound inbound listener is registered on the global window, and no listener is
  registered there twice.
\<close>

definition registered :: "world \<Rightarrow> bool" where
  "registered w \<longleftrightarrow>
     distinct (listeners w globalWindow) \<and> Bound_handleIncomingMessage \<in> set (listeners w globalWindow)"

text \<open>The unbound method \<open>handleIncomingMessage\<close> is registered nowhere.\<close>

definition only_closures :: "world \<Rightarrow> bool" where
  "only_closures w \<longleftrightarrow> (\<forall>t. Method_handleIncomingMessage \<notin> set (listeners w t))"

text \<open>
  How status, pending handshake, chains, races and promises hang together: a chain that
  has not settled is the pending handshake of a connector in state \<open>connecting\<close>, and
  its race is open or was rejected when it was set up; in state \<open>connecting\<close> the
  pending handshake has not settled; chains and response listeners belong to promises
  that exist.
\<close>

definition consistent :: "world \<Rightarrow> bool" where
  "consistent w \<longleftrightarrow>
     (\<forall>p. chains w p = Some HPending \<longrightarrow> status w = Connecting \<and> pendingHandshake w = Some p) \<and>
     (\<forall>p. status w = Connecting \<and> pendingHandshake w = Some p \<longrightarrow> chains w p = Some HPending) \<and>
     (\<forall>p. chains w p \<noteq> None \<longrightarrow> p < length (promises w)) \<and>
     (\<forall>t p m. ResponseHandler p m \<in> set (listeners w t) \<longrightarrow> p < length (promises w)) \<and>
     (\<forall>p. chains w p = Some HPending \<longrightarrow>
          (\<exists>ms. races w p = Some (ms, Pending)) \<or> (\<exists>ms e. races w p = Some (ms, Rejected e)))"

subsection \<open>The promise of one request\<close>

text \<open>
  A promise settles at most once, and after \<open>sendMessage\<close> has returned it the only
  way for the promise of a request to settle is to fulfil.
\<close>

definition evolves :: "pstate \<Rightarrow> pstate \<Rightarrow> bool" where
  "evolves a b \<longleftrightarrow> b = a \<or> (a = Pending \<and> (\<exists>v. b = Fulfilled v))"

definition tracked :: "nat \<Rightarrow> pstate \<Rightarrow> world \<Rightarrow> bool" where
  "tracked p a w \<longleftrightarrow> p < length (promises w) \<and> evolves a (promises w ! p)"

text \<open>
  The request with promise \<open>p\<close> and identifier \<open>mid\<close> is still unanswered: its promise
  is pending and every listener that resolves it waits for \<open>mid\<close>.
\<close>

definition waiting :: "nat \<Rightarrow> string \<Rightarrow> world \<Rightarrow> bool" where
  "waiting p mid w \<longleftrightarrow>
     p < length (promises w) \<and> promises w ! p = Pending \<and>
     (\<forall>t m. ResponseHandler p m \<in> set (listeners w t) \<longrightarrow> m = mid)"

subsection \<open>Attempts that nobody answers\<close>

text \<open>
  During the attempt no response arrives: the timer fires first, or the one message
  delivered before it names no request at all.
\<close>

fun no_response :: "attempt \<Rightarrow> bool" where
  "no_response TimesOut = True"
| "no_response (Answered event) =
     (case get_prop (data event) ''responseToMessageId'' of Inr (JStr s) \<Rightarrow> False | _ \<Rightarrow> True)"

subsection \<open>Sample connectors, handlers and messages\<close>

text \<open>
  A connector in an embedded page: the peer endpoint is another window (number 1) than
  the page's own, and it accepts whatever is posted to it; and the identifiers its
  random source yields.
\<close>

definition cfg0 :: config where
  "cfg0 = \<lparr>ehrWindow = 1, origin = None, handle = ''h1'', autoInitialize = False,
           timeoutMs = 50, maxRetries = 2, endpoint = (\<lambda>message targetOrigin. None)\<rparr>"

definition rng0 :: "nat \<Rightarrow> string" where
  "rng0 n = (if n = 0 then ''k3x9a'' else if n = 1 then ''p07rw'' else ''zz41c'')"

text \<open>The same with no retries, with another handle, and with the page's own window as peer.\<close>

definition cfg_no_retry :: config where
  "cfg_no_retry = \<lparr>ehrWindow = 1, origin = None, handle = ''h1'', autoInitialize = False,
           timeoutMs = 50, maxRetries = 0, endpoint = (\<lambda>message targetOrigin. None)\<rparr>"

definition cfg_other :: config where
  "cfg_other = \<lparr>ehrWindow = 1, origin = None, handle = ''h2'', autoInitialize = False,
           timeoutMs = 50, maxRetries = 2, endpoint = (\<lambda>message targetOrigin. None)\<rparr>"

definition cfg_same_window :: config where
  "cfg_same_window = \<lparr>ehrWindow = 0, origin = None, handle = ''h1'', autoInitialize = False,
           timeoutMs = 50, maxRetries = 2, endpoint = (\<lambda>message targetOrigin. None)\<rparr>"

text \<open>
  A handler that answers \<open>{ok: true}\<close>, one that throws, and one that answers
  \<open>{ok: true}\<close> through a promise that fulfils later.
\<close>

definition persist_handler :: handler where
  "persist_handler m = Returns (JObj [(''ok'', JBool True)])"

definition failing_handler :: handler where
  "failing_handler m = Throws (JStr ''boom'')"


definition two_handlers :: world where
  "two_handlers =
     on ''form.checkValidity'' persist_handler
       (on ''form.persist'' failing_handler (new_connector cfg0 rng0))"

text \<open>Two inbound requests for handle \<open>h1\<close>, from a source that is not the peer endpoint.\<close>

definition persist_request :: message_event where
  "persist_request =
     \<lparr>source = None,
      data = JObj [(''messagingHandle'', JStr ''h1''), (''messageId'', JStr ''m1''),
                   (''messageType'', JStr ''form.persist''), (''payload'', JObj [])]\<rparr>"

definition validity_request :: message_event where
  "validity_request =
     \<lparr>source = None,
      data = JObj [(''messagingHandle'', JStr ''h1''), (''messageId'', JStr ''m2''),
                   (''messageType'', JStr ''form.checkValidity''), (''payload'', JObj [])]\<rparr>"

text \<open>
  Two responses to the request \<open>k3x9a\<close>, both sent by the peer endpoint: one without the
  field \<open>additionalResponseExpected\<close>, one that sets it to \<open>false\<close>.
\<close>

definition self_response :: message_event where
  "self_response =
     \<lparr>source = Some 1,
      data = JObj [(''messageId'', JStr ''e1''), (''responseToMessageId'', JStr ''k3x9a''),
                   (''payload'', JObj [])]\<rparr>"

definition final_response :: message_event where
  "final_response =
     \<lparr>source = Some 1,
      data = JObj [(''messageId'', JStr ''e1''), (''responseToMessageId'', JStr ''k3x9a''),
                   (''additionalResponseExpected'', JBool False), (''payload'', JObj [])]\<rparr>"

text \<open>
  An endpoint that behaves like the \<open>postMessage\<close> of a window as far as the message
  goes: it clones the message, and a message that holds a function cannot be cloned.
  A connector with that endpoint, a payload that holds a callback, and a handler that
  answers with it.
\<close>

fun cloneable :: "jsval \<Rightarrow> bool" where
  "cloneable (JFun f) = False"
| "cloneable (JArr xs) = list_all cloneable xs"
| "cloneable (JObj kvs) = list_all cloneable (map snd kvs)"
| "cloneable v = True"

definition window_postMessage :: "jsval \<Rightarrow> string option \<Rightarrow> exn option" where
  "window_postMessage message whereto =
     (if cloneable message then None else Some (DOMException ''DataCloneError''))"

definition cfg_window :: config where
  "cfg_window = \<lparr>ehrWindow = 1, origin = None, handle = ''h1'', autoInitialize = False,
           timeoutMs = 50, maxRetries = 2, endpoint = window_postMessage\<rparr>"

definition callback_payload :: jsval where
  "callback_payload = JObj [(''onDone'', JFun 0)]"

definition callback_handler :: handler where
  "callback_handler m = Returns callback_payload"

text \<open>The steps in which the promise of a suspended handler settles.\<close>

fun settles :: "action \<Rightarrow> bool" where
  "settles (HandlerSettles i) = True"
| "settles a = False"

text \<open>A run in which much happens and no response arrives.\<close>

definition busy_run :: "action list" where
  "busy_run =
     [Connect, Deliver persist_request, TimerFires 1, Deliver \<lparr>source = None, data = JNull\<rparr>,
      RaceSettled 1, HandlerSettles 0, Connect, Close]"

section \<open>Properties\<close>

lemmas prim_defs =
  sendMessage_def generateMessageId_def addEventListener_def removeEventListener_def
  postMessage_def setStatus_def

subsection \<open>Sending does not depend on the connection state\<close>

text \<open>
  C10. \<open>sendMessage\<close> has no connection-readiness precondition: whatever the status (and
  whatever the pending handshake), it builds the request and posts it to the peer
  endpoint; the status field is neither read nor changed.
\<close>

theorem sendMessage_ignores_status:
  "sendMessage cfg messageType payload (w\<lparr>status := st, pendingHandshake := ph\<rparr>) =
     (fst (sendMessage cfg messageType payload w),
      (snd (sendMessage cfg messageType payload w))\<lparr>status := st, pendingHandshake := ph\<rparr>)
   \<and> outbox (snd (sendMessage cfg messageType payload w)) =
       outbox w @
        [\<lparr>target = ehrWindow cfg,
          msg = request_message cfg messageType
                  (if payload = JUndefined then JObj [] else payload) (rng w (drawn w)),
          targetOrigin =
            (case origin cfg of None \<Rightarrow> None | Some s \<Rightarrow> if s = [] then None else Some s)\<rparr>]"
  by (simp add: prim_defs Let_def split: option.splits prod.splits)

subsection \<open>What \<open>handleIncomingMessage\<close> does with an event\<close>

lemma get_prop_object: "truthy d \<Longrightarrow> js_typeof d = ''object'' \<Longrightarrow> \<exists>v. get_prop d k = Inr v"
  by (cases d) (auto split: option.splits)

lemma has_prop_object: "truthy d \<Longrightarrow> js_typeof d = ''object'' \<Longrightarrow> \<exists>b. has_prop k d = Inr b"
  by (cases d) auto

lemma postMessage_eq:
  "postMessage cfg m w =
     (w\<lparr>outbox := outbox w @
          [\<lparr>target = ehrWindow cfg, msg = m,
            targetOrigin = (case origin cfg of None \<Rightarrow> None | Some s \<Rightarrow> if s = [] then None else Some s)\<rparr>]\<rparr>,
      endpoint cfg m (case origin cfg of None \<Rightarrow> None | Some s \<Rightarrow> if s = [] then None else Some s))"
  by (simp add: postMessage_def split: option.splits)


lemma caught_None: "caught (w, None) = (w, None)"
  by (simp add: caught_def)

lemma caught_Some:
  "caught (w, Some e) =
     (w\<lparr>console := console w @ [ConsoleError ''Error handling incoming message:'' e]\<rparr>, None)"
  by (simp add: caught_def)

lemma snd_caught: "snd (caught r) = None"
  by (simp add: caught_def split: prod.splits option.splits)

lemma hIM_self:
  "source event = Some (ehrWindow cfg) \<Longrightarrow> handleIncomingMessage cfg event w = (w, None)"
  by (simp add: handleIncomingMessage_def handleIncomingMessage_try_def caught_def)

lemma hIM_filtered:
  assumes "\<not> truthy (data event) \<or> js_typeof (data event) \<noteq> ''object''
           \<or> get_prop (data event) ''messagingHandle'' \<noteq> Inr (JStr (handle cfg))
           \<or> has_prop ''messageType'' (data event) \<noteq> Inr True"
  shows "handleIncomingMessage cfg event w = (w, None)"
proof (cases "truthy (data event) \<and> js_typeof (data event) = ''object''")
  case False
  then show ?thesis
    by (auto simp add: handleIncomingMessage_def handleIncomingMessage_try_def Let_def caught_def)
next
  case True
  then obtain v b where v: "get_prop (data event) ''messagingHandle'' = Inr v"
    and b: "has_prop ''messageType'' (data event) = Inr b"
    using get_prop_object has_prop_object by blast
  from assms True v b have "v \<noteq> JStr (handle cfg) \<or> \<not> b" by auto
  then show ?thesis using True v b
    by (auto simp add: handleIncomingMessage_def handleIncomingMessage_try_def Let_def caught_def)
qed

lemma hIM_dispatch:
  assumes "source event \<noteq> Some (ehrWindow cfg)"
      and "truthy (data event)" and "js_typeof (data event) = ''object''"
      and "get_prop (data event) ''messagingHandle'' = Inr (JStr (handle cfg))"
      and "has_prop ''messageType'' (data event) = Inr True"
      and "get_prop (data event) ''messageType'' = Inr mt"
      and "handlers_get (handlers w) mt = Some h"
  shows "handleIncomingMessage cfg event w =
     (case h (data event) of
        NeverSettles \<Rightarrow> (w\<lparr>invoked := invoked w @ [data event]\<rparr>, None)
      | Later s \<Rightarrow>
          (w\<lparr>invoked := invoked w @ [data event],
             suspended := suspended w @ [(data event, s)]\<rparr>, None)
      | Throws e \<Rightarrow>
          (w\<lparr>invoked := invoked w @ [data event],
             console := console w @ [ConsoleError ''Error handling incoming message:'' (Thrown e)]\<rparr>, None)
      | Returns result \<Rightarrow>
          caught (respond cfg (data event) result (w\<lparr>invoked := invoked w @ [data event]\<rparr>)))"
  using assms
  by (simp add: handleIncomingMessage_def handleIncomingMessage_try_def Let_def caught_def
      split: outcome.splits)

subsection \<open>Delivery runs every listener\<close>

text \<open>
  A property that every single listener preserves is preserved by the delivery of an
  event. Response listeners leave alone what dispatch reads and writes, and dispatch
  leaves alone everything else, so the effect of a delivery on the dispatch side is that
  of the one bound inbound listener.
\<close>

lemma run_listeners_invariant:
  assumes "\<And>l w. P w \<Longrightarrow> l \<in> set (listeners w globalWindow) \<Longrightarrow> P (report (run_listener cfg l event w))"
      and "P w"
  shows "P (run_listeners cfg ls event w)"
  using assms(2)
proof (induction ls arbitrary: w)
  case Nil
  then show ?case by simp
next
  case (Cons l ls)
  then show ?case using assms(1) by simp
qed

lemma report_None: "report (w, None) = w"
  by (simp add: report_def)

lemmas resolve_defs = resolve_def handshake_then_def setStatus_def Let_def

lemma resolve_view: "dispatch_view (resolve p v w) = dispatch_view w"
  by (simp add: dispatch_view_def resolve_defs split: option.splits prod.splits pstate.splits)

lemma resolve_listeners: "listeners (resolve p v w) = listeners w"
  by (simp add: resolve_defs split: option.splits prod.splits pstate.splits)

lemma resolve_uncaught: "uncaught (resolve p v w) = uncaught w"
  by (simp add: resolve_defs split: option.splits prod.splits pstate.splits)

lemma responseHandler_view:
  "dispatch_view (report (responseHandler cfg p m event w)) = dispatch_view w"
proof -
  have r: "\<And>w'. dispatch_view (resolve p (data event) w') = dispatch_view w'" by (rule resolve_view)
  show ?thesis using r [of w]
    by (auto simp add: responseHandler_def report_def Let_def dispatch_view_def removeEventListener_def
        split: sum.splits)
qed

lemma responseHandler_listeners:
  "listeners (report (responseHandler cfg p m event w)) t = listeners w t
   \<or> listeners (report (responseHandler cfg p m event w)) t = removeAll (ResponseHandler p m) (listeners w t)"
  by (auto simp add: responseHandler_def report_def Let_def removeEventListener_def resolve_listeners
      split: sum.splits)

lemma responseHandler_registered:
  "registered w \<Longrightarrow> registered (report (responseHandler cfg p m event w))"
  using responseHandler_listeners [of cfg p m event w globalWindow]
  by (auto simp add: registered_def distinct_removeAll)

lemma responseHandler_bound:
  "Bound_handleIncomingMessage \<in> set (listeners (report (responseHandler cfg p m event w)) t)
   \<longleftrightarrow> Bound_handleIncomingMessage \<in> set (listeners w t)"
  using responseHandler_listeners [of cfg p m event w t] by auto

lemma hIM_snd: "snd (handleIncomingMessage cfg event w) = None"
  by (simp add: handleIncomingMessage_def snd_caught)

lemma hIM_fields:
  "listeners (fst (handleIncomingMessage cfg event w)) = listeners w"
  "promises (fst (handleIncomingMessage cfg event w)) = promises w"
  "chains (fst (handleIncomingMessage cfg event w)) = chains w"
  "races (fst (handleIncomingMessage cfg event w)) = races w"
  "status (fst (handleIncomingMessage cfg event w)) = status w"
  "pendingHandshake (fst (handleIncomingMessage cfg event w)) = pendingHandshake w"
  "handlers (fst (handleIncomingMessage cfg event w)) = handlers w"
  "statusListeners (fst (handleIncomingMessage cfg event w)) = statusListeners w"
  "uncaught (fst (handleIncomingMessage cfg event w)) = uncaught w"
  "connectCalls (fst (handleIncomingMessage cfg event w)) = connectCalls w"
  "rng (fst (handleIncomingMessage cfg event w)) = rng w"
  "notified (fst (handleIncomingMessage cfg event w)) = notified w"
  by (simp_all add: handleIncomingMessage_def handleIncomingMessage_try_def Let_def caught_def
        respond_def generateMessageId_def postMessage_def
        split: sum.splits option.splits outcome.splits bool.splits prod.splits)

lemma handler_settles_fields:
  "listeners (handler_settles cfg i w) = listeners w"
  "promises (handler_settles cfg i w) = promises w"
  "chains (handler_settles cfg i w) = chains w"
  "races (handler_settles cfg i w) = races w"
  "status (handler_settles cfg i w) = status w"
  "pendingHandshake (handler_settles cfg i w) = pendingHandshake w"
  "handlers (handler_settles cfg i w) = handlers w"
  "statusListeners (handler_settles cfg i w) = statusListeners w"
  "uncaught (handler_settles cfg i w) = uncaught w"
  "connectCalls (handler_settles cfg i w) = connectCalls w"
  "rng (handler_settles cfg i w) = rng w"
  "notified (handler_settles cfg i w) = notified w"
  "invoked (handler_settles cfg i w) = invoked w"
  by (simp_all add: handler_settles_def Let_def caught_def
        respond_def generateMessageId_def postMessage_def
        split: sum.splits option.splits settlement.splits bool.splits prod.splits)

lemma hIM_view_cong:
  "dispatch_view w1 = dispatch_view w2 \<Longrightarrow>
   dispatch_view (fst (handleIncomingMessage cfg event w1)) =
   dispatch_view (fst (handleIncomingMessage cfg event w2))"
  by (simp add: dispatch_view_def handleIncomingMessage_def handleIncomingMessage_try_def Let_def
        caught_def respond_def generateMessageId_def postMessage_def
        split: sum.splits option.splits outcome.splits bool.splits prod.splits)

lemma hIM_registered:
  "registered w \<Longrightarrow> registered (report (handleIncomingMessage cfg event w))"
  using hIM_snd [of cfg event w] hIM_fields(1) [of cfg event w]
  by (cases "handleIncomingMessage cfg event w") (simp add: report_def registered_def)

lemma report_hIM: "report (handleIncomingMessage cfg event w) = fst (handleIncomingMessage cfg event w)"
  using hIM_snd [of cfg event w]
  by (cases "handleIncomingMessage cfg event w") (simp add: report_def)

lemma run_listener_registered:
  "registered w \<Longrightarrow> registered (report (run_listener cfg l event w))"
  by (cases l) (simp_all add: responseHandler_registered hIM_registered report_None)

lemma deliver_registered: "registered w \<Longrightarrow> registered (deliver cfg event w)"
  unfolding deliver_def
  by (rule run_listeners_invariant [where P = registered]) (erule run_listener_registered)

lemma run_listeners_view:
  "distinct ls \<Longrightarrow>
   dispatch_view (run_listeners cfg ls event w) =
     (if Bound_handleIncomingMessage \<in> set ls
         \<and> Bound_handleIncomingMessage \<in> set (listeners w globalWindow)
      then dispatch_view (fst (handleIncomingMessage cfg event w))
      else dispatch_view w)"
proof (induction ls arbitrary: w)
  case Nil
  then show ?case by simp
next
  case (Cons l ls)
  then have d: "distinct ls" and nl: "l \<notin> set ls" by simp_all
  show ?case
  proof (cases l)
    case (ResponseHandler p m)
    let ?w' = "if l \<in> set (listeners w globalWindow) then report (run_listener cfg l event w) else w"
    have v: "dispatch_view ?w' = dispatch_view w"
      using ResponseHandler by (simp add: responseHandler_view)
    have b: "Bound_handleIncomingMessage \<in> set (listeners ?w' globalWindow)
             \<longleftrightarrow> Bound_handleIncomingMessage \<in> set (listeners w globalWindow)"
      using ResponseHandler by (simp add: responseHandler_bound)
    have "dispatch_view (run_listeners cfg (l # ls) event w) = dispatch_view (run_listeners cfg ls event ?w')"
      by simp
    also have "\<dots> = (if Bound_handleIncomingMessage \<in> set ls
         \<and> Bound_handleIncomingMessage \<in> set (listeners ?w' globalWindow)
      then dispatch_view (fst (handleIncomingMessage cfg event ?w')) else dispatch_view ?w')"
      using Cons.IH [OF d] by blast
    also have "\<dots> = (if Bound_handleIncomingMessage \<in> set (l # ls)
         \<and> Bound_handleIncomingMessage \<in> set (listeners w globalWindow)
      then dispatch_view (fst (handleIncomingMessage cfg event w)) else dispatch_view w)"
      using v b hIM_view_cong [OF v, of cfg event] ResponseHandler by auto
    finally show ?thesis .
  next
    case Bound_handleIncomingMessage
    then show ?thesis using Cons.IH [OF d] nl
      by (simp add: report_hIM)
  next
    case Method_handleIncomingMessage
    then show ?thesis using Cons.IH [OF d]
      by (auto simp add: report_None)
  qed
qed

lemma deliver_view:
  "registered w \<Longrightarrow>
   dispatch_view (deliver cfg event w) = dispatch_view (fst (handleIncomingMessage cfg event w))"
  by (simp add: deliver_def registered_def run_listeners_view)

subsection \<open>The handshake invariant\<close>

text \<open>Every step of a connector preserves \<open>consistent\<close>.\<close>

lemma consistentI:
  assumes "\<And>p. chains w p = Some HPending \<Longrightarrow> status w = Connecting \<and> pendingHandshake w = Some p"
      and "\<And>p. status w = Connecting \<Longrightarrow> pendingHandshake w = Some p \<Longrightarrow> chains w p = Some HPending"
      and "\<And>p. chains w p \<noteq> None \<Longrightarrow> p < length (promises w)"
      and "\<And>t p m. ResponseHandler p m \<in> set (listeners w t) \<Longrightarrow> p < length (promises w)"
      and "\<And>p. chains w p = Some HPending \<Longrightarrow>
             (\<exists>ms. races w p = Some (ms, Pending)) \<or> (\<exists>ms e. races w p = Some (ms, Rejected e))"
  shows "consistent w"
  using assms unfolding consistent_def by blast

lemma consistent_race:
  "consistent w \<Longrightarrow> chains w p = Some HPending \<Longrightarrow>
   (\<exists>ms. races w p = Some (ms, Pending)) \<or> (\<exists>ms e. races w p = Some (ms, Rejected e))"
  unfolding consistent_def by blast

lemma consistent_pending:
  "consistent w \<Longrightarrow> chains w p = Some HPending \<Longrightarrow> status w = Connecting \<and> pendingHandshake w = Some p"
  unfolding consistent_def by blast

lemma consistent_connecting:
  "consistent w \<Longrightarrow> status w = Connecting \<Longrightarrow> pendingHandshake w = Some p \<Longrightarrow> chains w p = Some HPending"
  unfolding consistent_def by blast

lemma consistent_chain_bound:
  "consistent w \<Longrightarrow> chains w p \<noteq> None \<Longrightarrow> p < length (promises w)"
  unfolding consistent_def by blast

lemma consistent_listener_bound:
  "consistent w \<Longrightarrow> ResponseHandler p m \<in> set (listeners w t) \<Longrightarrow> p < length (promises w)"
  unfolding consistent_def by blast

lemma consistent_cong:
  "chains w' = chains w \<Longrightarrow> status w' = status w \<Longrightarrow> pendingHandshake w' = pendingHandshake w \<Longrightarrow>
   promises w' = promises w \<Longrightarrow> listeners w' = listeners w \<Longrightarrow> races w' = races w \<Longrightarrow>
   consistent w' = consistent w"
  by (simp add: consistent_def)

lemma consistent_transfer:
  assumes c: "consistent w"
      and ch: "chains w' = chains w" and st: "status w' = status w"
      and ph: "pendingHandshake w' = pendingHandshake w" and rc: "\<And>q. chains w q = Some HPending \<Longrightarrow> races w' q = races w q"
      and pr: "length (promises w) \<le> length (promises w')"
      and ls: "\<And>t p m. ResponseHandler p m \<in> set (listeners w' t) \<Longrightarrow> p < length (promises w')"
  shows "consistent w'"
proof (rule consistentI)
  fix p assume "chains w' p = Some HPending"
  then have "chains w p = Some HPending" by (simp add: ch)
  then have "status w = Connecting \<and> pendingHandshake w = Some p" by (rule consistent_pending [OF c])
  then show "status w' = Connecting \<and> pendingHandshake w' = Some p" by (simp add: st ph)
next
  fix p assume "status w' = Connecting" and "pendingHandshake w' = Some p"
  then have "status w = Connecting" and "pendingHandshake w = Some p" by (simp_all add: st ph)
  then have "chains w p = Some HPending" by (rule consistent_connecting [OF c])
  then show "chains w' p = Some HPending" by (simp add: ch)
next
  fix p assume "chains w' p \<noteq> None"
  then have "chains w p \<noteq> None" by (simp add: ch)
  then have "p < length (promises w)" by (rule consistent_chain_bound [OF c])
  then show "p < length (promises w')" using pr by linarith
next
  fix t p m assume "ResponseHandler p m \<in> set (listeners w' t)"
  then show "p < length (promises w')" by (rule ls)
next
  fix p assume "chains w' p = Some HPending"
  then have p: "chains w p = Some HPending" by (simp add: ch)
  then have "(\<exists>ms. races w p = Some (ms, Pending)) \<or> (\<exists>ms e. races w p = Some (ms, Rejected e))"
    by (rule consistent_race [OF c])
  then show "(\<exists>ms. races w' p = Some (ms, Pending)) \<or> (\<exists>ms e. races w' p = Some (ms, Rejected e))"
    by (simp add: rc [OF p])
qed

lemma consistent_new: "consistent
  \<lparr>status = Disconnected, statusListeners = [], handlers = [],
                 pendingHandshake = None, listeners = (\<lambda>t. []), promises = [],
                 races = (\<lambda>p. None), chains = (\<lambda>p. None), suspended = [],
                 outbox = [], rng = r, drawn = 0, notified = [],
                 invoked = [], connectCalls = 0, console = [], uncaught = []\<rparr>"
  by (rule consistentI) simp_all

lemma addEventListener_set:
  "set (listeners (addEventListener t l w) t') \<subseteq> insert l (set (listeners w t'))"
  by (simp add: addEventListener_def subset_insertI)

lemma removeEventListener_set:
  "set (listeners (removeEventListener t l w) t') \<subseteq> set (listeners w t')"
  by (simp add: removeEventListener_def)

lemma consistent_add_bound:
  assumes "consistent w"
  shows "consistent (addEventListener t Bound_handleIncomingMessage w)"
proof (rule consistent_transfer [OF assms])
  fix t' p m
  assume "ResponseHandler p m \<in> set (listeners (addEventListener t Bound_handleIncomingMessage w) t')"
  then have "ResponseHandler p m \<in> set (listeners w t')"
    using addEventListener_set [of t Bound_handleIncomingMessage w t'] by auto
  then have "p < length (promises w)" by (rule consistent_listener_bound [OF assms])
  then show "p < length (promises (addEventListener t Bound_handleIncomingMessage w))"
    by (simp add: addEventListener_def)
qed (simp_all add: addEventListener_def)

lemma consistent_remove:
  assumes "consistent w"
  shows "consistent (removeEventListener t l w)"
proof (rule consistent_transfer [OF assms])
  fix t' p m
  assume "ResponseHandler p m \<in> set (listeners (removeEventListener t l w) t')"
  then have "ResponseHandler p m \<in> set (listeners w t')"
    using removeEventListener_set [of t l w t'] by blast
  then have "p < length (promises w)" by (rule consistent_listener_bound [OF assms])
  then show "p < length (promises (removeEventListener t l w))"
    by (simp add: removeEventListener_def)
qed (simp_all add: removeEventListener_def)

text \<open>
  \<open>sendMessage\<close> in one equation: the promise is created rejected when the endpoint
  throws while the request is posted, and pending otherwise.
\<close>

lemma sendMessage_eq:
  "sendMessage cfg mt pl w =
     (length (promises w),
      (addEventListener globalWindow (ResponseHandler (length (promises w)) (rng w (drawn w)))
         (w\<lparr>drawn := Suc (drawn w)\<rparr>))
       \<lparr>promises := promises w @
          [case endpoint cfg
                  (request_message cfg mt (if pl = JUndefined then JObj [] else pl) (rng w (drawn w)))
                  (case origin cfg of None \<Rightarrow> None | Some s \<Rightarrow> if s = [] then None else Some s) of
             None \<Rightarrow> Pending | Some e \<Rightarrow> Rejected e],
        outbox := outbox w @
          [\<lparr>target = ehrWindow cfg,
            msg = request_message cfg mt (if pl = JUndefined then JObj [] else pl) (rng w (drawn w)),
            targetOrigin = (case origin cfg of None \<Rightarrow> None | Some s \<Rightarrow> if s = [] then None else Some s)\<rparr>]\<rparr>)"
  by (simp add: sendMessage_def generateMessageId_def addEventListener_def postMessage_eq Let_def
      split: option.splits)

lemma sendMessage_fields:
  "status (snd (sendMessage cfg mt pl w)) = status w"
  "pendingHandshake (snd (sendMessage cfg mt pl w)) = pendingHandshake w"
  "chains (snd (sendMessage cfg mt pl w)) = chains w"
  "races (snd (sendMessage cfg mt pl w)) = races w"
  "length (promises (snd (sendMessage cfg mt pl w))) = Suc (length (promises w))"
  "fst (sendMessage cfg mt pl w) = length (promises w)"
  "connectCalls (snd (sendMessage cfg mt pl w)) = connectCalls w"
  "handlers (snd (sendMessage cfg mt pl w)) = handlers w"
  "statusListeners (snd (sendMessage cfg mt pl w)) = statusListeners w"
  "notified (snd (sendMessage cfg mt pl w)) = notified w"
  by (simp_all add: sendMessage_eq addEventListener_def)

lemma sendMessage_promises:
  "\<exists>s. promises (snd (sendMessage cfg mt pl w)) = promises w @ [s] \<and> (\<forall>v. s \<noteq> Fulfilled v)"
  by (simp add: sendMessage_eq addEventListener_def split: option.splits)

lemma sendMessage_listeners:
  "set (listeners (snd (sendMessage cfg mt pl w)) t) \<subseteq>
     insert (ResponseHandler (length (promises w)) (rng w (drawn w))) (set (listeners w t))"
  by (simp add: sendMessage_eq addEventListener_def subset_insertI)

lemma consistent_sendMessage:
  assumes "consistent w"
  shows "consistent (snd (sendMessage cfg mt pl w))"
proof (rule consistent_transfer [OF assms])
  fix t p m
  assume "ResponseHandler p m \<in> set (listeners (snd (sendMessage cfg mt pl w)) t)"
  then have "p = length (promises w) \<or> ResponseHandler p m \<in> set (listeners w t)"
    using sendMessage_listeners [of cfg mt pl w t] by blast
  then have "p < Suc (length (promises w))"
    using consistent_listener_bound [OF assms] less_Suc_eq by blast
  then show "p < length (promises (snd (sendMessage cfg mt pl w)))"
    by (simp add: sendMessage_fields)
qed (simp_all add: sendMessage_fields)

lemma resolve_fields:
  "listeners (resolve p v w) = listeners w"
  "length (promises (resolve p v w)) = length (promises w)"
  "pendingHandshake (resolve p v w) = pendingHandshake w"
  "handlers (resolve p v w) = handlers w"
  "connectCalls (resolve p v w) = connectCalls w"
  by (simp_all add: resolve_defs split: option.splits prod.splits pstate.splits)

lemma resolve_cases:
  "resolve p v w = w
   \<or> ((\<forall>ms. races w p \<noteq> Some (ms, Pending)) \<and>
       resolve p v w = w\<lparr>promises := (promises w)[p := Fulfilled v]\<rparr>)
   \<or> (chains w p \<noteq> Some HPending \<and>
       (\<exists>r. resolve p v w = w\<lparr>promises := (promises w)[p := Fulfilled v], races := r\<rparr>))
   \<or> (chains w p = Some HPending \<and>
       (\<exists>r. resolve p v w =
          (setStatus Connected (w\<lparr>promises := (promises w)[p := Fulfilled v], races := r\<rparr>))
             \<lparr>chains := (chains w)(p \<mapsto> HFulfilled)\<rparr>))"
proof (cases "p < length (promises w) \<and> promises w ! p = Pending")
  case False
  then show ?thesis by (auto simp add: resolve_def)
next
  case True
  show ?thesis
  proof (cases "\<exists>ms. races w p = Some (ms, Pending)")
    case False
    have "resolve p v w = w\<lparr>promises := (promises w)[p := Fulfilled v]\<rparr>"
      using True False by (auto simp add: resolve_def Let_def split: option.splits pstate.splits)
    then show ?thesis using False by blast
  next
    case race: True
    then obtain ms where ms: "races w p = Some (ms, Pending)" by blast
    show ?thesis
    proof (cases "chains w p = Some HPending")
      case False
      have "resolve p v w = w\<lparr>promises := (promises w)[p := Fulfilled v],
                               races := (races w)(p \<mapsto> (ms, Fulfilled v))\<rparr>"
        using True ms False by (simp add: resolve_defs)
      then show ?thesis using False by blast
    next
      case hs: True
      have "resolve p v w =
          (setStatus Connected (w\<lparr>promises := (promises w)[p := Fulfilled v],
                                  races := (races w)(p \<mapsto> (ms, Fulfilled v))\<rparr>))
             \<lparr>chains := (chains w)(p \<mapsto> HFulfilled)\<rparr>"
        using True ms hs by (simp add: resolve_defs)
      then show ?thesis using hs by blast
    qed
  qed
qed

lemma consistent_resolve:
  assumes c: "consistent w"
  shows "consistent (resolve p v w)"
proof -
  consider (same) "resolve p v w = w"
    | (closed) "resolve p v w = w\<lparr>promises := (promises w)[p := Fulfilled v]\<rparr>"
    | (plain) r where "chains w p \<noteq> Some HPending"
        "resolve p v w = w\<lparr>promises := (promises w)[p := Fulfilled v], races := r\<rparr>"
    | (hs) r where "chains w p = Some HPending"
        "resolve p v w = (setStatus Connected (w\<lparr>promises := (promises w)[p := Fulfilled v], races := r\<rparr>))
                         \<lparr>chains := (chains w)(p \<mapsto> HFulfilled)\<rparr>"
    using resolve_cases [of p v w] by blast
  then show ?thesis
  proof cases
    case same
    then show ?thesis using c by simp
  next
    case closed
    show ?thesis
      by (rule consistent_transfer [OF c])
         (use consistent_listener_bound [OF c] in \<open>simp_all add: closed\<close>)
  next
    case plain
    have keep: "\<And>q. chains w q = Some HPending \<Longrightarrow> races (resolve p v w) q = races w q"
    proof -
      fix q assume q: "chains w q = Some HPending"
      then have "q \<noteq> p" using plain(1) by auto
      then show "races (resolve p v w) q = races w q"
        by (simp add: resolve_defs split: option.splits prod.splits pstate.splits)
    qed
    show ?thesis
    proof (rule consistent_transfer [OF c])
      show "\<And>q. chains w q = Some HPending \<Longrightarrow> races (resolve p v w) q = races w q" by (rule keep)
    qed (use consistent_listener_bound [OF c] in \<open>simp_all add: plain(2)\<close>)
  next
    case hs
    let ?w' = "(setStatus Connected (w\<lparr>promises := (promises w)[p := Fulfilled v], races := r\<rparr>))
                         \<lparr>chains := (chains w)(p \<mapsto> HFulfilled)\<rparr>"
    have only: "\<And>q. chains w q = Some HPending \<Longrightarrow> q = p"
      using consistent_pending [OF c] hs(1) by (metis option.inject)
    have none: "\<And>q. chains ?w' q \<noteq> Some HPending"
    proof
      fix q assume "chains ?w' q = Some HPending"
      then have "q \<noteq> p \<and> chains w q = Some HPending" by (simp split: if_splits)
      then show False using only by blast
    qed
    show ?thesis unfolding hs(2)
    proof (rule consistentI)
      fix q assume "chains ?w' q = Some HPending"
      then show "status ?w' = Connecting \<and> pendingHandshake ?w' = Some q" using none by blast
    next
      fix q assume "status ?w' = Connecting"
      then have False by (simp add: setStatus_def)
      then show "chains ?w' q = Some HPending" by simp
    next
      fix q assume "chains ?w' q \<noteq> None"
      then have "chains w q \<noteq> None" using hs(1) by (auto split: if_splits)
      then have "q < length (promises w)" by (rule consistent_chain_bound [OF c])
      then show "q < length (promises ?w')" by (simp add: setStatus_def)
    next
      fix t q m assume "ResponseHandler q m \<in> set (listeners ?w' t)"
      then have "ResponseHandler q m \<in> set (listeners w t)" by (simp add: setStatus_def)
      then have "q < length (promises w)" by (rule consistent_listener_bound [OF c])
      then show "q < length (promises ?w')" by (simp add: setStatus_def)
    next
      fix q assume "chains ?w' q = Some HPending"
      then show "(\<exists>ms. races ?w' q = Some (ms, Pending)) \<or> (\<exists>ms e. races ?w' q = Some (ms, Rejected e))"
        using none by blast
    qed
  qed
qed

lemma consistent_report: "consistent (report (w, x)) = consistent w"
  by (cases x) (simp_all add: report_def consistent_def)

lemma get_prop_defined: "d \<noteq> JUndefined \<Longrightarrow> d \<noteq> JNull \<Longrightarrow> \<exists>v. get_prop d k = Inr v"
  by (cases d) (simp_all split: option.splits)

lemma responseHandler_cases:
  "responseHandler cfg p m event w = (w, Some TypeError)
   \<or> responseHandler cfg p m event w = (w, None)
   \<or> responseHandler cfg p m event w = (resolve p (data event) w, None)
   \<or> responseHandler cfg p m event w =
        (removeEventListener (ehrWindow cfg) (ResponseHandler p m) (resolve p (data event) w), None)"
proof (cases "data event = JUndefined \<or> data event = JNull")
  case True
  then show ?thesis by (auto simp add: responseHandler_def)
next
  case False
  then obtain r a where "get_prop (data event) ''responseToMessageId'' = Inr r"
    and "get_prop (data event) ''additionalResponseExpected'' = Inr a"
    using get_prop_defined [of "data event"] by blast
  then show ?thesis by (simp add: responseHandler_def Let_def)
qed

lemma consistent_responseHandler:
  assumes "consistent w"
  shows "consistent (report (responseHandler cfg p m event w))"
  using responseHandler_cases [of cfg p m event w] assms
  by (auto simp add: consistent_report consistent_resolve consistent_remove)

lemma consistent_hIM:
  "consistent w \<Longrightarrow> consistent (report (handleIncomingMessage cfg event w))"
  by (simp add: report_hIM consistent_cong [of "fst (handleIncomingMessage cfg event w)" w] hIM_fields)

lemma consistent_run_listener:
  "consistent w \<Longrightarrow> consistent (report (run_listener cfg l event w))"
  by (cases l) (simp_all add: consistent_responseHandler consistent_hIM report_None)

lemma consistent_deliver: "consistent w \<Longrightarrow> consistent (deliver cfg event w)"
  unfolding deliver_def
  by (rule run_listeners_invariant [where P = consistent]) (erule consistent_run_listener)

lemma connect_join:
  "status w = Connecting \<Longrightarrow> pendingHandshake w = Some p \<Longrightarrow>
   connect cfg w = (p, w\<lparr>connectCalls := Suc (connectCalls w)\<rparr>)"
  by (simp add: connect_def Let_def)

lemma connect_fresh:
  assumes "\<not> (status w = Connecting \<and> pendingHandshake w \<noteq> None)"
  shows "fst (connect cfg w) = length (promises w)"
    and "status (snd (connect cfg w)) = Connecting"
    and "pendingHandshake (snd (connect cfg w)) = Some (length (promises w))"
    and "chains (snd (connect cfg w)) = (chains w)(length (promises w) \<mapsto> HPending)"
    and "length (promises (snd (connect cfg w))) = Suc (length (promises w))"
    and "\<exists>s. promises (snd (connect cfg w)) = promises w @ [s]
           \<and> races (snd (connect cfg w)) = (races w)(length (promises w) \<mapsto> (timeoutMs cfg, s))
           \<and> s = (case endpoint cfg
                         (request_message cfg ''status.handshake'' (JObj []) (rng w (drawn w)))
                         (case origin cfg of None \<Rightarrow> None | Some s \<Rightarrow> if s = [] then None else Some s) of
                    None \<Rightarrow> Pending | Some e \<Rightarrow> Rejected e)"
    and "set (listeners (snd (connect cfg w)) t) \<subseteq>
           insert (ResponseHandler (length (promises w)) (rng w (drawn w))) (set (listeners w t))"
    and "connectCalls (snd (connect cfg w)) = Suc (connectCalls w)"
    and "outbox (snd (connect cfg w)) =
           outbox w @ [\<lparr>target = ehrWindow cfg,
              msg = request_message cfg ''status.handshake'' (JObj []) (rng w (drawn w)),
              targetOrigin = (case origin cfg of None \<Rightarrow> None | Some s \<Rightarrow> if s = [] then None else Some s)\<rparr>]"
  using assms
  by (simp_all add: connect_def withTimeout_def sendMessage_eq setStatus_def addEventListener_def
      Let_def subset_insertI split: option.splits)

lemma consistent_connect:
  assumes c: "consistent w"
  shows "consistent (snd (connect cfg w))"
proof (cases "status w = Connecting \<and> pendingHandshake w \<noteq> None")
  case True
  then obtain p where "status w = Connecting" "pendingHandshake w = Some p" by blast
  then have "connect cfg w = (p, w\<lparr>connectCalls := Suc (connectCalls w)\<rparr>)" by (rule connect_join)
  moreover have "consistent (w\<lparr>connectCalls := Suc (connectCalls w)\<rparr>) = consistent w"
    by (rule consistent_cong) simp_all
  ultimately show ?thesis using c by simp
next
  case False
  note f = connect_fresh [OF False, of cfg]
  have np: "\<And>q. chains w q \<noteq> Some HPending"
    using consistent_pending [OF c] False by blast
  show ?thesis
  proof (rule consistentI)
    fix q assume "chains (snd (connect cfg w)) q = Some HPending"
    then have "q = length (promises w)" using np by (simp add: f(4) split: if_splits)
    then show "status (snd (connect cfg w)) = Connecting \<and> pendingHandshake (snd (connect cfg w)) = Some q"
      by (simp add: f(2,3))
  next
    fix q assume "pendingHandshake (snd (connect cfg w)) = Some q"
    then show "chains (snd (connect cfg w)) q = Some HPending" by (simp add: f(3,4))
  next
    fix q assume "chains (snd (connect cfg w)) q \<noteq> None"
    then have "q = length (promises w) \<or> chains w q \<noteq> None" by (simp add: f(4) split: if_splits)
    then have "q < Suc (length (promises w))"
      using consistent_chain_bound [OF c] less_Suc_eq by blast
    then show "q < length (promises (snd (connect cfg w)))" by (simp add: f(5))
  next
    fix t q m assume "ResponseHandler q m \<in> set (listeners (snd (connect cfg w)) t)"
    then have "q = length (promises w) \<or> ResponseHandler q m \<in> set (listeners w t)"
      using f(7) [of t] by blast
    then have "q < Suc (length (promises w))"
      using consistent_listener_bound [OF c] less_Suc_eq by blast
    then show "q < length (promises (snd (connect cfg w)))" by (simp add: f(5))
  next
    fix q assume "chains (snd (connect cfg w)) q = Some HPending"
    then have q: "q = length (promises w)" using np by (simp add: f(4) split: if_splits)
    obtain s where s: "races (snd (connect cfg w)) = (races w)(length (promises w) \<mapsto> (timeoutMs cfg, s))"
      and "s = Pending \<or> (\<exists>e. s = Rejected e)"
      using f(6) by (auto split: option.splits)
    then show "(\<exists>ms. races (snd (connect cfg w)) q = Some (ms, Pending))
             \<or> (\<exists>ms e. races (snd (connect cfg w)) q = Some (ms, Rejected e))"
      using q by auto
  qed
qed

text \<open>
  A handshake chain that is rejected: the status becomes \<open>error\<close> and no handshake is
  in flight any more.
\<close>

lemma consistent_fail:
  assumes c: "consistent w" and p: "chains w p = Some HPending"
  shows "consistent ((setStatus StatusError (w\<lparr>races := r\<rparr>))\<lparr>chains := (chains w)(p \<mapsto> HRejected e)\<rparr>)"
proof -
  let ?w' = "(setStatus StatusError (w\<lparr>races := r\<rparr>))\<lparr>chains := (chains w)(p \<mapsto> HRejected e)\<rparr>"
  have only: "\<And>q. chains w q = Some HPending \<Longrightarrow> q = p"
    using consistent_pending [OF c] p by (metis option.inject)
  have none: "\<And>q. chains ?w' q \<noteq> Some HPending"
  proof
    fix q assume "chains ?w' q = Some HPending"
    then have "q \<noteq> p \<and> chains w q = Some HPending" by (simp split: if_splits)
    then show False using only by blast
  qed
  show ?thesis
  proof (rule consistentI)
    fix q assume "chains ?w' q = Some HPending"
    then show "status ?w' = Connecting \<and> pendingHandshake ?w' = Some q" using none by blast
  next
    fix q assume "status ?w' = Connecting"
    then have False by (simp add: setStatus_def)
    then show "chains ?w' q = Some HPending" by simp
  next
    fix q assume "chains ?w' q \<noteq> None"
    then have "chains w q \<noteq> None" using p by (auto split: if_splits)
    then have "q < length (promises w)" by (rule consistent_chain_bound [OF c])
    then show "q < length (promises ?w')" by (simp add: setStatus_def)
  next
    fix t q m assume "ResponseHandler q m \<in> set (listeners ?w' t)"
    then have "ResponseHandler q m \<in> set (listeners w t)" by (simp add: setStatus_def)
    then have "q < length (promises w)" by (rule consistent_listener_bound [OF c])
    then show "q < length (promises ?w')" by (simp add: setStatus_def)
  next
    fix q assume "chains ?w' q = Some HPending"
    then show "(\<exists>ms. races ?w' q = Some (ms, Pending)) \<or> (\<exists>ms e. races ?w' q = Some (ms, Rejected e))"
      using none by blast
  qed
qed

lemma race_settled_cases:
  assumes c: "consistent w"
  shows "race_settled p w = w
       \<or> (\<exists>ms e. chains w p = Some HPending \<and> races w p = Some (ms, Rejected e) \<and>
            race_settled p w = (setStatus StatusError w)\<lparr>chains := (chains w)(p \<mapsto> HRejected e)\<rparr>)"
proof (cases "chains w p = Some HPending")
  case False
  then show ?thesis
    by (simp add: race_settled_def handshake_then_def handshake_catch_def
        split: option.splits prod.splits pstate.splits)
next
  case True
  then have st: "status w = Connecting" using consistent_pending [OF c] by blast
  from consistent_race [OF c True] show ?thesis
  proof
    assume "\<exists>ms. races w p = Some (ms, Pending)"
    then show ?thesis by (auto simp add: race_settled_def)
  next
    assume "\<exists>ms e. races w p = Some (ms, Rejected e)"
    then obtain ms e where r: "races w p = Some (ms, Rejected e)" by blast
    then have "race_settled p w = (setStatus StatusError w)\<lparr>chains := (chains w)(p \<mapsto> HRejected e)\<rparr>"
      using True st by (simp add: race_settled_def handshake_catch_def)
    then show ?thesis using True r by blast
  qed
qed

lemma consistent_race_settled:
  assumes c: "consistent w"
  shows "consistent (race_settled p w)"
proof -
  from race_settled_cases [OF c, of p] show ?thesis
  proof
    assume "race_settled p w = w"
    then show ?thesis using c by simp
  next
    assume "\<exists>ms e. chains w p = Some HPending \<and> races w p = Some (ms, Rejected e) \<and>
            race_settled p w = (setStatus StatusError w)\<lparr>chains := (chains w)(p \<mapsto> HRejected e)\<rparr>"
    then obtain ms e where p: "chains w p = Some HPending"
      and r: "race_settled p w = (setStatus StatusError w)\<lparr>chains := (chains w)(p \<mapsto> HRejected e)\<rparr>"
      by blast
    from consistent_fail [OF c p, where r = "races w" and e = e] show ?thesis by (simp add: r)
  qed
qed

lemma consistent_handler_settles: "consistent w \<Longrightarrow> consistent (handler_settles cfg i w)"
  by (simp add: consistent_cong [of "handler_settles cfg i w" w] handler_settles_fields)

lemma timer_fires_pending:
  assumes c: "consistent w" and p: "chains w p = Some HPending" and ms: "races w p = Some (ms, Pending)"
  shows "timer_fires p w =
       (setStatus StatusError (w\<lparr>races := (races w)(p \<mapsto> (ms, Rejected (timeout_error ms)))\<rparr>))
         \<lparr>chains := (chains w)(p \<mapsto> HRejected (timeout_error ms))\<rparr>"
proof -
  have "status w = Connecting" using consistent_pending [OF c p] by blast
  then show ?thesis
    using ms p by (simp add: timer_fires_def handshake_catch_def)
qed

lemma timer_fires_no_chain:
  assumes "chains w p \<noteq> Some HPending"
  shows "\<exists>r. timer_fires p w = w\<lparr>races := r\<rparr> \<and> (\<forall>q. q \<noteq> p \<longrightarrow> r q = races w q)"
proof (cases "\<exists>ms. races w p = Some (ms, Pending)")
  case True
  then obtain ms where "races w p = Some (ms, Pending)" by blast
  then have "timer_fires p w = w\<lparr>races := (races w)(p \<mapsto> (ms, Rejected (timeout_error ms)))\<rparr>"
    using assms by (simp add: timer_fires_def handshake_catch_def)
  then show ?thesis by (intro exI [of _ "(races w)(p \<mapsto> (ms, Rejected (timeout_error ms)))"]) simp
next
  case False
  then have "timer_fires p w = w"
    by (auto simp add: timer_fires_def split: option.splits pstate.splits)
  then show ?thesis by (intro exI [of _ "races w"]) simp
qed

lemma consistent_timer_fires:
  assumes c: "consistent w"
  shows "consistent (timer_fires p w)"
proof (cases "chains w p = Some HPending \<and> (\<exists>ms. races w p = Some (ms, Pending))")
  case True
  then obtain ms where p: "chains w p = Some HPending" and ms: "races w p = Some (ms, Pending)" by blast
  show ?thesis unfolding timer_fires_pending [OF c p ms] by (rule consistent_fail [OF c p])
next
  case False
  show ?thesis
  proof (cases "chains w p = Some HPending")
    case True
    then have "timer_fires p w = w"
      using False by (auto simp add: timer_fires_def split: option.splits pstate.splits)
    then show ?thesis using c by simp
  next
    case False
    then obtain r where r: "timer_fires p w = w\<lparr>races := r\<rparr>" "\<forall>q. q \<noteq> p \<longrightarrow> r q = races w q"
      using timer_fires_no_chain by blast
    show ?thesis unfolding r(1)
    proof (rule consistent_transfer [OF c])
      fix q assume "chains w q = Some HPending"
      then have "q \<noteq> p" using False by auto
      then show "races (w\<lparr>races := r\<rparr>) q = races w q" using r(2) by simp
    qed (use consistent_listener_bound [OF c] in simp_all)
  qed
qed

lemma consistent_close: 
  assumes "consistent w" shows "consistent (close cfg w)"
proof -
  let ?w = "removeEventListener globalWindow Method_handleIncomingMessage
              (snd (sendMessage cfg ''ui.close'' JUndefined w))"
  have "consistent ?w"
    by (intro consistent_remove consistent_sendMessage assms)
  moreover have "consistent (?w\<lparr>statusListeners := [], handlers := []\<rparr>) = consistent ?w"
    by (rule consistent_cong) simp_all
  ultimately show ?thesis
    by (simp add: close_def cleanup_def)
qed

lemma consistent_step: 
  assumes c: "consistent w" shows "consistent (step cfg a w)"
proof (cases a)
  case Connect
  then show ?thesis using c by (simp add: consistent_connect)
next
  case (SendMessage mt pl)
  then show ?thesis using c by (simp add: consistent_sendMessage)
next
  case (Deliver ev)
  then show ?thesis using c by (simp add: consistent_deliver)
next
  case (TimerFires p)
  then show ?thesis using c by (simp add: consistent_timer_fires)
next
  case (RaceSettled p)
  then show ?thesis using c by (simp add: consistent_race_settled)
next
  case (HandlerSettles i)
  then show ?thesis using c by (simp add: consistent_handler_settles)
next
  case (On mt h)
  have "consistent (on mt h w) = consistent w" by (rule consistent_cong) (simp_all add: on_def)
  then show ?thesis using On c by simp
next
  case (RemoveHandler mt)
  have "consistent (snd (removeHandler mt w)) = consistent w"
    by (rule consistent_cong) (simp_all add: removeHandler_def)
  then show ?thesis using RemoveHandler c by simp
next
  case (AddStatusListener l)
  have "consistent (addStatusListener l w) = consistent w"
    by (rule consistent_cong) (simp_all add: addStatusListener_def)
  then show ?thesis using AddStatusListener c by simp
next
  case (RemoveStatusListener l)
  have "consistent (snd (removeStatusListener l w)) = consistent w"
    by (rule consistent_cong) (simp_all add: removeStatusListener_def)
  then show ?thesis using RemoveStatusListener c by simp
next
  case Close
  then show ?thesis using c by (simp add: consistent_close)
qed

lemma consistent_exec: "consistent w \<Longrightarrow> consistent (exec cfg acts w)"
  by (induction acts arbitrary: w) (simp_all add: consistent_step)

lemma consistent_new_connector: "consistent (new_connector cfg r)"
  by (simp add: new_connector_def setupMessageListener_def Let_def consistent_connect
      consistent_add_bound consistent_new)

lemma consistent_reachable: "consistent (exec cfg acts (new_connector cfg r))"
  by (simp add: consistent_exec consistent_new_connector)

subsection \<open>The unbound method is never a listener\<close>

lemma only_closures_subset:
  assumes "only_closures w"
      and "\<And>t. set (listeners w' t) \<subseteq>
                insert Bound_handleIncomingMessage (set (listeners w t) \<union> {l. \<exists>p m. l = ResponseHandler p m})"
  shows "only_closures w'"
  unfolding only_closures_def
proof
  fix t
  show "Method_handleIncomingMessage \<notin> set (listeners w' t)"
    using assms(1) assms(2) [of t] by (auto simp add: only_closures_def)
qed

lemma only_closures_cong: "listeners w' = listeners w \<Longrightarrow> only_closures w' = only_closures w"
  by (simp add: only_closures_def)

lemma only_closures_sendMessage: "only_closures w \<Longrightarrow> only_closures (snd (sendMessage cfg mt pl w))"
  by (erule only_closures_subset) (use sendMessage_listeners in fastforce)

lemma only_closures_connect: "only_closures w \<Longrightarrow> only_closures (snd (connect cfg w))"
proof (cases "status w = Connecting \<and> pendingHandshake w \<noteq> None")
  case True
  assume o: "only_closures w"
  obtain p where "status w = Connecting" "pendingHandshake w = Some p" using True by blast
  then have "connect cfg w = (p, w\<lparr>connectCalls := Suc (connectCalls w)\<rparr>)" by (rule connect_join)
  then show ?thesis using o by (simp add: only_closures_def)
next
  case False
  assume o: "only_closures w"
  show ?thesis
    by (rule only_closures_subset [OF o]) (use connect_fresh(7) [OF False] in fastforce)
qed

lemma only_closures_run_listener:
  assumes "only_closures w"
  shows "only_closures (report (run_listener cfg l event w))"
proof (cases l)
  case (ResponseHandler p m)
  have "\<And>t. set (listeners (report (responseHandler cfg p m event w)) t) \<subseteq> set (listeners w t)"
  proof -
    fix t
    show "set (listeners (report (responseHandler cfg p m event w)) t) \<subseteq> set (listeners w t)"
      using responseHandler_listeners [of cfg p m event w t] by auto
  qed
  then have "only_closures (report (responseHandler cfg p m event w))"
    by (intro only_closures_subset [OF assms]) blast
  then show ?thesis using ResponseHandler by simp
next
  case Bound_handleIncomingMessage
  then show ?thesis using assms
    by (simp add: report_hIM only_closures_cong [of "fst (handleIncomingMessage cfg event w)" w] hIM_fields)
next
  case Method_handleIncomingMessage
  then show ?thesis using assms by (simp add: report_None)
qed

lemma only_closures_step: "only_closures w \<Longrightarrow> only_closures (step cfg a w)"
proof (cases a)
  case (Deliver ev)
  assume "only_closures w"
  then have "only_closures (run_listeners cfg (listeners w globalWindow) ev w)"
    by (rule run_listeners_invariant [where P = only_closures, rotated]) (erule only_closures_run_listener)
  then show ?thesis using Deliver by (simp add: deliver_def)
next
  case Close
  assume "only_closures w"
  then have "only_closures (snd (sendMessage cfg ''ui.close'' JUndefined w))"
    by (rule only_closures_sendMessage)
  then show ?thesis using Close
    by (simp add: only_closures_def close_def cleanup_def removeEventListener_def)
qed (simp_all add: only_closures_connect only_closures_sendMessage,
     simp_all add: only_closures_def timer_fires_def race_settled_def handshake_then_def
       handshake_catch_def setStatus_def on_def handler_settles_fields
       removeHandler_def addStatusListener_def removeStatusListener_def
       split: option.splits prod.splits pstate.splits)

lemma only_closures_reachable: "only_closures (exec cfg acts (new_connector cfg r))"
proof -
  have "only_closures (setupMessageListener
                \<lparr>status = Disconnected, statusListeners = [], handlers = [],
                 pendingHandshake = None, listeners = (\<lambda>t. []), promises = [],
                 races = (\<lambda>p. None), chains = (\<lambda>p. None), suspended = [],
                 outbox = [], rng = r, drawn = 0,
                 notified = [], invoked = [], connectCalls = 0, console = [], uncaught = []\<rparr>)"
    by (simp add: only_closures_def setupMessageListener_def addEventListener_def)
  then have "only_closures (new_connector cfg r)"
    by (simp add: new_connector_def Let_def only_closures_connect)
  moreover have "\<And>w. only_closures w \<Longrightarrow> only_closures (exec cfg acts w)"
    by (induction acts) (simp_all add: only_closures_step)
  ultimately show ?thesis by blast
qed

subsection \<open>Connection attempts that nobody answers\<close>

lemma connect_post:
  "status (snd (connect cfg w)) = Connecting \<and>
   pendingHandshake (snd (connect cfg w)) = Some (fst (connect cfg w)) \<and>
   connectCalls (snd (connect cfg w)) = Suc (connectCalls w)"
proof (cases "status w = Connecting \<and> pendingHandshake w \<noteq> None")
  case True
  then obtain p where "status w = Connecting" "pendingHandshake w = Some p" by blast
  then show ?thesis by (simp add: connect_join)
next
  case False
  then show ?thesis by (simp add: connect_fresh)
qed

lemma connect_twice:
  "connect cfg (snd (connect cfg w)) =
     (fst (connect cfg w), (snd (connect cfg w))\<lparr>connectCalls := Suc (Suc (connectCalls w))\<rparr>)"
  using connect_post [of cfg w] by (simp add: connect_join)

lemma responseHandler_no_match:
  assumes "get_prop (data event) ''responseToMessageId'' \<noteq> Inr (JStr m)"
  shows "responseHandler cfg p m event w = (w, None) \<or> responseHandler cfg p m event w = (w, Some TypeError)"
proof (cases "get_prop (data event) ''responseToMessageId''")
  case (Inl e)
  then have "e = TypeError" by (cases "data event") (simp_all split: option.splits)
  then show ?thesis using Inl by (simp add: responseHandler_def)
next
  case (Inr r)
  then show ?thesis using assms by (simp add: responseHandler_def)
qed

lemma report_handshake_view: "handshake_view (report (w, x)) = handshake_view w"
  by (cases x) (simp_all add: report_def handshake_view_def)

lemma deliver_no_response:
  assumes "no_response (Answered event)"
  shows "handshake_view (deliver cfg event w) = handshake_view w"
  unfolding deliver_def
proof (rule run_listeners_invariant [where P = "\<lambda>w'. handshake_view w' = handshake_view w"])
  fix l w'
  assume v: "handshake_view w' = handshake_view w"
  show "handshake_view (report (run_listener cfg l event w')) = handshake_view w"
  proof (cases l)
    case (ResponseHandler p m)
    have "get_prop (data event) ''responseToMessageId'' \<noteq> Inr (JStr m)"
      using assms by (auto split: sum.splits jsval.splits)
    then show ?thesis
      using responseHandler_no_match [of event m cfg p w'] v ResponseHandler
      by (auto simp add: report_handshake_view)
  next
    case Bound_handleIncomingMessage
    then show ?thesis using v
      by (simp add: report_hIM handshake_view_def hIM_fields)
  next
    case Method_handleIncomingMessage
    then show ?thesis using v by (simp add: report_None)
  qed
qed simp

lemma deliver_no_response_races:
  assumes "no_response (Answered event)"
  shows "races (deliver cfg event w) = races w"
  unfolding deliver_def
proof (rule run_listeners_invariant [where P = "\<lambda>w'. races w' = races w"])
  fix l and w' :: world
  assume v: "races w' = races w"
  show "races (report (run_listener cfg l event w')) = races w"
  proof (cases l)
    case (ResponseHandler p m)
    have "get_prop (data event) ''responseToMessageId'' \<noteq> Inr (JStr m)"
      using assms by (auto split: sum.splits jsval.splits)
    then show ?thesis
      using responseHandler_no_match [of event m cfg p w'] v ResponseHandler
      by (auto simp add: report_def)
  next
    case Bound_handleIncomingMessage
    then show ?thesis using v
      by (simp add: report_hIM hIM_fields)
  next
    case Method_handleIncomingMessage
    then show ?thesis using v by (simp add: report_None)
  qed
qed simp

lemma connect_attempt_fails:
  assumes c: "consistent w" and u: "no_response a"
  shows "\<exists>e w'. connect_attempt cfg a w = (Rejects e, w') \<and> consistent w'
           \<and> status w' = StatusError \<and> connectCalls w' = Suc (connectCalls w)"
proof -
  obtain p w0 where cn: "connect cfg w = (p, w0)" by (cases "connect cfg w")
  have c0: "consistent w0" using consistent_connect [OF c, of cfg] cn by simp
  have post: "status w0 = Connecting" "pendingHandshake w0 = Some p" "connectCalls w0 = Suc (connectCalls w)"
    using connect_post [of cfg w] cn by simp_all
  have pend0: "chains w0 p = Some HPending"
    by (rule consistent_connecting [OF c0 post(1,2)])
  define w1 where "w1 = race_settled p w0"
  define w2 where "w2 = (case a of TimesOut \<Rightarrow> w1 | Answered event \<Rightarrow> deliver cfg event w1)"
  define w3 where "w3 = timer_fires p w2"
  have c1: "consistent w1" unfolding w1_def by (rule consistent_race_settled [OF c0])
  have v: "handshake_view w2 = handshake_view w1"
    using u by (cases a) (simp_all add: w2_def deliver_no_response del: no_response.simps)
  have r: "races w2 = races w1"
    using u by (cases a) (simp_all add: w2_def deliver_no_response_races del: no_response.simps)
  have c2: "consistent w2"
    by (cases a) (simp_all add: w2_def c1 consistent_deliver)
  have c3: "consistent w3" unfolding w3_def by (rule consistent_timer_fires [OF c2])
  have ca: "connect_attempt cfg a w =
          (case chains w3 p of Some HFulfilled \<Rightarrow> (Resolves (), w3)
           | Some (HRejected e) \<Rightarrow> (Rejects e, w3) | _ \<Rightarrow> (Hangs, w3))"
    unfolding connect_attempt_def w3_def w2_def w1_def by (simp add: cn Let_def)
  from consistent_race [OF c0 pend0]
  have "\<exists>e. chains w3 p = Some (HRejected e) \<and> status w3 = StatusError
            \<and> connectCalls w3 = Suc (connectCalls w)"
  proof
    assume "\<exists>ms. races w0 p = Some (ms, Pending)"
    then obtain ms where ms: "races w0 p = Some (ms, Pending)" by blast
    then have e1: "w1 = w0" by (simp add: w1_def race_settled_def)
    have st2: "status w2 = Connecting" "pendingHandshake w2 = Some p"
      "connectCalls w2 = Suc (connectCalls w)"
      using v post e1 by (simp_all add: handshake_view_def)
    have pend: "chains w2 p = Some HPending"
      by (rule consistent_connecting [OF c2 st2(1,2)])
    have ms2: "races w2 p = Some (ms, Pending)" using r e1 ms by simp
    have "w3 =
       (setStatus StatusError (w2\<lparr>races := (races w2)(p \<mapsto> (ms, Rejected (timeout_error ms)))\<rparr>))
         \<lparr>chains := (chains w2)(p \<mapsto> HRejected (timeout_error ms))\<rparr>"
      unfolding w3_def by (rule timer_fires_pending [OF c2 pend ms2])
    then show ?thesis using st2 by (simp add: setStatus_def)
  next
    assume "\<exists>ms e. races w0 p = Some (ms, Rejected e)"
    then obtain ms e where ms: "races w0 p = Some (ms, Rejected e)" by blast
    then have e1: "w1 = (setStatus StatusError w0)\<lparr>chains := (chains w0)(p \<mapsto> HRejected e)\<rparr>"
      using pend0 post(1) by (simp add: w1_def race_settled_def handshake_catch_def)
    have st2: "status w2 = StatusError" "chains w2 p = Some (HRejected e)"
      "connectCalls w2 = Suc (connectCalls w)"
      using v post e1 by (simp_all add: handshake_view_def setStatus_def)
    have "races w2 p = Some (ms, Rejected e)" using r e1 ms by (simp add: setStatus_def)
    then have "w3 = w2" by (simp add: w3_def timer_fires_def)
    then show ?thesis using st2 by simp
  qed
  then obtain e where "chains w3 p = Some (HRejected e)" "status w3 = StatusError"
    "connectCalls w3 = Suc (connectCalls w)" by blast
  then show ?thesis using ca c3 by simp
qed

lemma loop_fails:
  "\<forall>k. no_response (env k) \<Longrightarrow> consistent w \<Longrightarrow>
     \<exists>w'. connectWithRetry_loop cfg env retries w = (Rejects (retries_exhausted cfg), w')
        \<and> consistent w'
        \<and> int (connectCalls w') = int (connectCalls w) + max 0 (maxRetries cfg - int retries)
        \<and> (int retries < maxRetries cfg \<longrightarrow> status w' = StatusError)
        \<and> (\<not> int retries < maxRetries cfg \<longrightarrow> w' = w)"
proof (induction cfg env retries w rule: connectWithRetry_loop.induct)
  case (1 cfg env retries w)
  note u = "1.prems"(1) and c = "1.prems"(2)
  show ?case
  proof (cases "int retries < maxRetries cfg")
    case False
    then show ?thesis using c
      by (simp add: connectWithRetry_loop.simps [of cfg env retries w])
  next
    case True
    obtain e w1 where a: "connect_attempt cfg (env retries) w = (Rejects e, w1)"
      and c1: "consistent w1" and s1: "status w1 = StatusError"
      and n1: "connectCalls w1 = Suc (connectCalls w)"
    proof -
      have "no_response (env retries)" using u by simp
      from connect_attempt_fails [OF c this, where cfg = cfg] that show ?thesis by blast
    qed
    obtain w' where r: "connectWithRetry_loop cfg env (Suc retries) w1 = (Rejects (retries_exhausted cfg), w')"
      and c': "consistent w'"
      and n': "int (connectCalls w') = int (connectCalls w1) + max 0 (maxRetries cfg - int (Suc retries))"
      and s': "int (Suc retries) < maxRetries cfg \<longrightarrow> status w' = StatusError"
      and e': "\<not> int (Suc retries) < maxRetries cfg \<longrightarrow> w' = w1"
      using "1.IH" [OF True a [symmetric] refl u c1] by blast
    have "connectWithRetry_loop cfg env retries w = (Rejects (retries_exhausted cfg), w')"
      using True a r by (simp add: connectWithRetry_loop.simps [of cfg env retries w])
    moreover have "status w' = StatusError" using s' e' s1 by blast
    moreover have "int (connectCalls w') = int (connectCalls w) + max 0 (maxRetries cfg - int retries)"
      using n' n1 True by simp
    ultimately show ?thesis using c' True by blast
  qed
qed

lemmas eval_defs =
  cfg0_def rng0_def new_connector_def setupMessageListener_def globalWindow_def
  connect_def withTimeout_def sendMessage_def generateMessageId_def addEventListener_def
  removeEventListener_def postMessage_def setStatus_def request_message_def Let_def

subsection \<open>One handshake at a time, and retries\<close>

text \<open>
  C3. In every state a connector can reach, at most one handshake is in flight. A
  \<open>connect\<close> call made while the status is \<open>connecting\<close> and a pending handshake
  exists starts nothing: it waits for that same handshake, so a second \<open>connect\<close> call
  right after a first one returns the first one's handshake, posts no message and
  leaves every handshake as it was.
\<close>

theorem single_in_flight_handshake:
  assumes "w = exec cfg acts (new_connector cfg r)"
  shows "(\<forall>p q. chains w p = Some HPending \<and> chains w q = Some HPending \<longrightarrow> p = q)
       \<and> (\<forall>p. status w = Connecting \<and> pendingHandshake w = Some p \<longrightarrow>
              connect cfg w = (p, w\<lparr>connectCalls := Suc (connectCalls w)\<rparr>))
       \<and> connect cfg (snd (connect cfg w)) =
           (fst (connect cfg w), (snd (connect cfg w))\<lparr>connectCalls := Suc (Suc (connectCalls w))\<rparr>)"
proof -
  have c: "consistent w" unfolding assms by (rule consistent_reachable)
  have "\<And>p q. chains w p = Some HPending \<Longrightarrow> chains w q = Some HPending \<Longrightarrow> p = q"
  proof -
    fix p q assume "chains w p = Some HPending" and "chains w q = Some HPending"
    then have "pendingHandshake w = Some p" and "pendingHandshake w = Some q"
      using consistent_pending [OF c] by blast+
    then show "p = q" by simp
  qed
  then show ?thesis using connect_join [of w _ cfg] connect_twice [of cfg w] by blast
qed

theorem single_in_flight_handshake_witness:
  "chains (exec cfg0 [Connect] (new_connector cfg0 rng0)) 0 = Some HPending
   \<and> status (exec cfg0 [Connect] (new_connector cfg0 rng0)) = Connecting
   \<and> pendingHandshake (exec cfg0 [Connect] (new_connector cfg0 rng0)) = Some 0
   \<and> fst (connect cfg0 (exec cfg0 [Connect] (new_connector cfg0 rng0))) = 0
   \<and> outbox (snd (connect cfg0 (exec cfg0 [Connect] (new_connector cfg0 rng0))))
       = outbox (exec cfg0 [Connect] (new_connector cfg0 rng0))"
proof -
  let ?w = "exec cfg0 [Connect] (new_connector cfg0 rng0)"
  have h: "chains ?w 0 = Some HPending" "status ?w = Connecting" "pendingHandshake ?w = Some 0"
    by (simp_all add: eval_defs)
  have "connect cfg0 ?w = (0, ?w\<lparr>connectCalls := Suc (connectCalls ?w)\<rparr>)"
    using single_in_flight_handshake [OF refl, of cfg0 "[Connect]" rng0] h by blast
  then show ?thesis using h by simp
qed

text \<open>
  C2 (as amended). When no attempt is ever answered (each one runs into its timer, with
  at most a message that is no response arriving first), \<open>connectWithRetry\<close> makes
  exactly \<open>maxRetries\<close> \<open>connect\<close> calls (none if \<open>maxRetries \<le> 0\<close>), swallows
  each failure and rejects with the error that names \<open>maxRetries\<close>. The status is
  \<open>error\<close> afterwards if \<open>maxRetries \<ge> 1\<close>; with \<open>maxRetries \<le> 0\<close> the connector is
  left exactly as it was.
\<close>

theorem connectWithRetry_exhausts:
  assumes "w = exec cfg acts (new_connector cfg r)" and "\<forall>k. no_response (env k)"
  shows "fst (connectWithRetry cfg env w) =
           Rejects (Error (''Failed to establish connection after '' @ show_int (maxRetries cfg) @ '' retries''))
       \<and> int (connectCalls (snd (connectWithRetry cfg env w))) = int (connectCalls w) + max 0 (maxRetries cfg)
       \<and> (1 \<le> maxRetries cfg \<longrightarrow> status (snd (connectWithRetry cfg env w)) = StatusError)
       \<and> (maxRetries cfg \<le> 0 \<longrightarrow> snd (connectWithRetry cfg env w) = w)"
proof -
  have c: "consistent w" unfolding assms(1) by (rule consistent_reachable)
  from loop_fails [OF assms(2) c, of cfg 0] show ?thesis
    by (auto simp add: connectWithRetry_def retries_exhausted_def)
qed

theorem connectWithRetry_exhausts_witness:
  "fst (connectWithRetry cfg0 (\<lambda>k. TimesOut) (new_connector cfg0 rng0)) =
      Rejects (Error ''Failed to establish connection after 2 retries'')
   \<and> connectCalls (snd (connectWithRetry cfg0 (\<lambda>k. TimesOut) (new_connector cfg0 rng0))) = 2
   \<and> status (snd (connectWithRetry cfg0 (\<lambda>k. TimesOut) (new_connector cfg0 rng0))) = StatusError
   \<and> snd (connectWithRetry cfg_no_retry (\<lambda>k. TimesOut) (new_connector cfg_no_retry rng0)) =
       new_connector cfg_no_retry rng0"
proof -
  have m: "maxRetries cfg0 = 2" "maxRetries cfg_no_retry = 0"
    by (simp_all add: cfg0_def cfg_no_retry_def)
  have s: "show_int 2 = ''2''" by (simp add: show_int_def show_nat.simps digit_char_def)
  have n: "connectCalls (new_connector cfg0 rng0) = 0" by (simp add: eval_defs)
  have e: "new_connector cfg rng0 = exec cfg [] (new_connector cfg rng0)" for cfg by simp
  have u: "\<forall>k. no_response ((\<lambda>k. TimesOut) k)" by simp
  from connectWithRetry_exhausts [OF e u, of cfg0] connectWithRetry_exhausts [OF e u, of cfg_no_retry]
  show ?thesis
    by (simp add: m s n)
qed

text \<open>
  With \<open>maxRetries = 0\<close> the call rejects without a single attempt, and a fresh
  connector is still \<open>disconnected\<close> afterwards, not \<open>error\<close>.
\<close>

theorem connectWithRetry_zero_counterexample:
  "fst (connectWithRetry cfg_no_retry (\<lambda>k. TimesOut) (new_connector cfg_no_retry rng0)) =
      Rejects (Error ''Failed to establish connection after 0 retries'')
   \<and> connectCalls (snd (connectWithRetry cfg_no_retry (\<lambda>k. TimesOut) (new_connector cfg_no_retry rng0))) = 0
   \<and> status (snd (connectWithRetry cfg_no_retry (\<lambda>k. TimesOut) (new_connector cfg_no_retry rng0))) = Disconnected"
  by (simp add: connectWithRetry_def connectWithRetry_loop.simps retries_exhausted_def cfg_no_retry_def
      show_int_def show_nat.simps digit_char_def new_connector_def setupMessageListener_def
      addEventListener_def Let_def)

subsection \<open>The inbound listener stays registered\<close>

lemma registered_sendMessage: "registered w \<Longrightarrow> registered (snd (sendMessage cfg mt pl w))"
  by (simp add: registered_def sendMessage_eq addEventListener_def)

lemma registered_connect: "registered w \<Longrightarrow> registered (snd (connect cfg w))"
  by (simp add: registered_def connect_def withTimeout_def sendMessage_eq addEventListener_def
      setStatus_def Let_def split: option.splits)

lemma registered_timer_fires: "registered w \<Longrightarrow> registered (timer_fires p w)"
  by (simp add: registered_def timer_fires_def handshake_catch_def setStatus_def
      split: option.splits prod.splits pstate.splits)

lemma registered_race_settled: "registered w \<Longrightarrow> registered (race_settled p w)"
  by (simp add: registered_def race_settled_def handshake_then_def handshake_catch_def setStatus_def
      split: option.splits prod.splits pstate.splits)

lemma registered_handler_settles: "registered w \<Longrightarrow> registered (handler_settles cfg i w)"
  by (simp add: registered_def handler_settles_fields)

lemma registered_close: "registered w \<Longrightarrow> registered (close cfg w)"
  by (simp add: registered_def close_def cleanup_def sendMessage_eq addEventListener_def
      removeEventListener_def distinct_removeAll)

lemma registered_step: "registered w \<Longrightarrow> registered (step cfg a w)"
  by (cases a)
    (simp_all add: registered_connect registered_sendMessage deliver_registered
      registered_timer_fires registered_race_settled registered_handler_settles registered_close,
     simp_all add: registered_def on_def removeHandler_def addStatusListener_def
      removeStatusListener_def)

lemma registered_exec: "registered w \<Longrightarrow> registered (exec cfg acts w)"
  by (induction acts arbitrary: w) (simp_all add: registered_step)

lemma registered_new_connector: "registered (new_connector cfg r)"
proof -
  have "registered (setupMessageListener
                \<lparr>status = Disconnected, statusListeners = [], handlers = [],
                 pendingHandshake = None, listeners = (\<lambda>t. []), promises = [],
                 races = (\<lambda>p. None), chains = (\<lambda>p. None), suspended = [],
                 outbox = [], rng = r, drawn = 0, notified = [],
                 invoked = [], connectCalls = 0, console = [], uncaught = []\<rparr>)"
    by (simp add: registered_def setupMessageListener_def addEventListener_def)
  then show ?thesis
    by (simp add: new_connector_def Let_def registered_connect)
qed

lemma registered_reachable: "registered (exec cfg acts (new_connector cfg r))"
  by (simp add: registered_exec registered_new_connector)

subsection \<open>Requests that reach a handler\<close>




subsection \<open>Messages that are not dispatched\<close>

lemma deliver_not_dispatched:
  assumes "handleIncomingMessage cfg event = (\<lambda>w. (w, None))"
  shows "dispatch_view (deliver cfg event w) = dispatch_view w"
  unfolding deliver_def
proof (rule run_listeners_invariant [where P = "\<lambda>w'. dispatch_view w' = dispatch_view w"])
  fix l w'
  assume v: "dispatch_view w' = dispatch_view w"
  show "dispatch_view (report (run_listener cfg l event w')) = dispatch_view w"
    using v assms by (cases l) (simp_all add: responseHandler_view report_None)
qed simp

lemma deliver_filtered:
  assumes "\<not> truthy (data event) \<or> js_typeof (data event) \<noteq> ''object''
           \<or> get_prop (data event) ''messagingHandle'' \<noteq> Inr (JStr (handle cfg))
           \<or> has_prop ''messageType'' (data event) \<noteq> Inr True"
  shows "dispatch_view (deliver cfg event w) = dispatch_view w"
  by (rule deliver_not_dispatched) (rule ext, rule hIM_filtered [OF assms])

lemma deliver_self:
  assumes "source event = Some (ehrWindow cfg)"
  shows "dispatch_view (deliver cfg event w) = dispatch_view w"
  by (rule deliver_not_dispatched) (rule ext, rule hIM_self [OF assms])

text \<open>
  C7. An inbound message that is not an object, or whose \<open>messagingHandle\<close> is not this
  connection's handle, or that has no \<open>messageType\<close> field, is dropped silently: its
  delivery invokes no handler, posts nothing and logs no error. Hence a request addressed
  to the handle of one connector is never dispatched by a connector with another handle,
  whatever handlers that one has registered.
\<close>

theorem dispatch_filter_rejects:
  "(\<not> truthy (data event) \<or> js_typeof (data event) \<noteq> ''object''
      \<or> get_prop (data event) ''messagingHandle'' \<noteq> Inr (JStr (handle cfg))
      \<or> has_prop ''messageType'' (data event) \<noteq> Inr True
    \<longrightarrow> invoked (deliver cfg event w) = invoked w \<and> outbox (deliver cfg event w) = outbox w
        \<and> console (deliver cfg event w) = console w)
   \<and> (handle cfg' \<noteq> handle cfg \<and> get_prop (data event) ''messagingHandle'' = Inr (JStr (handle cfg))
    \<longrightarrow> invoked (deliver cfg' event w') = invoked w' \<and> outbox (deliver cfg' event w') = outbox w')"
proof (intro conjI impI)
  assume a: "\<not> truthy (data event) \<or> js_typeof (data event) \<noteq> ''object''
      \<or> get_prop (data event) ''messagingHandle'' \<noteq> Inr (JStr (handle cfg))
      \<or> has_prop ''messageType'' (data event) \<noteq> Inr True"
  from deliver_filtered [OF a, of w]
  show "invoked (deliver cfg event w) = invoked w" "outbox (deliver cfg event w) = outbox w"
    "console (deliver cfg event w) = console w"
    by (simp_all add: dispatch_view_def)
next
  assume b: "handle cfg' \<noteq> handle cfg \<and> get_prop (data event) ''messagingHandle'' = Inr (JStr (handle cfg))"
  then have "get_prop (data event) ''messagingHandle'' \<noteq> Inr (JStr (handle cfg'))" by auto
  then have "dispatch_view (deliver cfg' event w') = dispatch_view w'"
    by (intro deliver_filtered) simp
  then show "invoked (deliver cfg' event w') = invoked w'" "outbox (deliver cfg' event w') = outbox w'"
    by (simp_all add: dispatch_view_def)
qed

theorem dispatch_filter_rejects_witness:
  "get_prop (data persist_request) ''messagingHandle'' \<noteq> Inr (JStr (handle cfg_other))
   \<and> handle cfg_other \<noteq> handle cfg0
   \<and> get_prop (data persist_request) ''messagingHandle'' = Inr (JStr (handle cfg0))
   \<and> invoked (deliver cfg_other persist_request
               (on ''form.persist'' persist_handler (new_connector cfg_other rng0))) = []
   \<and> outbox (deliver cfg_other persist_request
               (on ''form.persist'' persist_handler (new_connector cfg_other rng0))) = []"
proof -
  let ?w = "on ''form.persist'' persist_handler (new_connector cfg_other rng0)"
  have h: "get_prop (data persist_request) ''messagingHandle'' \<noteq> Inr (JStr (handle cfg_other))"
      "handle cfg_other \<noteq> handle cfg0"
      "get_prop (data persist_request) ''messagingHandle'' = Inr (JStr (handle cfg0))"
    by (simp_all add: persist_request_def cfg_other_def cfg0_def)
  have f: "invoked ?w = []" "outbox ?w = []"
    by (simp_all add: on_def new_connector_def setupMessageListener_def addEventListener_def
        cfg_other_def Let_def)
  from dispatch_filter_rejects [where event = persist_request and cfg = cfg_other and w = ?w] h(1)
  have "invoked (deliver cfg_other persist_request ?w) = invoked ?w" by blast
  moreover
  from dispatch_filter_rejects [where event = persist_request and cfg = cfg0 and cfg' = cfg_other
      and w' = ?w] h(2,3)
  have "outbox (deliver cfg_other persist_request ?w) = outbox ?w" by blast
  ultimately show ?thesis using h f by simp
qed

text \<open>
  C5 (as amended). A message whose source is the connector's own peer endpoint
  (\<open>ehrWindow\<close>) is ignored by inbound dispatch: \<open>handleIncomingMessage\<close> returns at
  once, so its delivery invokes no handler and posts no response. (The response
  listeners of \<open>sendMessage\<close> do not look at the source.)
\<close>

theorem self_sourced_not_dispatched:
  assumes "source event = Some (ehrWindow cfg)"
  shows "handleIncomingMessage cfg event w = (w, None)
       \<and> invoked (deliver cfg event w) = invoked w
       \<and> outbox (deliver cfg event w) = outbox w
       \<and> console (deliver cfg event w) = console w"
  using hIM_self [OF assms, of w] deliver_self [OF assms, of w]
  by (simp add: dispatch_view_def)

theorem self_sourced_not_dispatched_witness:
  "source (persist_request\<lparr>source := Some 1\<rparr>) = Some (ehrWindow cfg0)
   \<and> invoked (deliver cfg0 (persist_request\<lparr>source := Some 1\<rparr>)
               (on ''form.persist'' persist_handler (new_connector cfg0 rng0))) = []
   \<and> outbox (deliver cfg0 (persist_request\<lparr>source := Some 1\<rparr>)
               (on ''form.persist'' persist_handler (new_connector cfg0 rng0))) = []"
proof -
  let ?w = "on ''form.persist'' persist_handler (new_connector cfg0 rng0)"
  have h: "source (persist_request\<lparr>source := Some 1\<rparr>) = Some (ehrWindow cfg0)"
    by (simp add: cfg0_def)
  have f: "invoked ?w = []" "outbox ?w = []"
    by (simp_all add: on_def eval_defs)
  from self_sourced_not_dispatched [OF h, of ?w] show ?thesis using h f by simp
qed

text \<open>
  A response that comes from the peer endpoint itself and names a pending request is
  processed by that request's listener: the promise fulfils with it.
\<close>

theorem self_sourced_response_counterexample:
  "source self_response = Some (ehrWindow cfg0)
   \<and> promises (snd (sendMessage cfg0 ''form.requestSubmit'' JUndefined (new_connector cfg0 rng0))) ! 0
       = Pending
   \<and> promises (deliver cfg0 self_response
        (snd (sendMessage cfg0 ''form.requestSubmit'' JUndefined (new_connector cfg0 rng0)))) ! 0
       = Fulfilled (data self_response)"
  by (simp add: self_response_def deliver_def responseHandler_def resolve_def handshake_then_def report_def
      handleIncomingMessage_def caught_def respond_def handleIncomingMessage_try_def eval_defs)

subsection \<open>Handlers that fail\<close>

lemma responseHandler_uncaught:
  assumes "data event \<noteq> JUndefined" and "data event \<noteq> JNull"
  shows "uncaught (report (responseHandler cfg p m event w)) = uncaught w"
proof -
  obtain r a where "get_prop (data event) ''responseToMessageId'' = Inr r"
    and "get_prop (data event) ''additionalResponseExpected'' = Inr a"
    using get_prop_defined [OF assms] by blast
  then show ?thesis
    by (simp add: responseHandler_def Let_def report_None resolve_uncaught removeEventListener_def)
qed

lemma deliver_uncaught:
  assumes "data event \<noteq> JUndefined" and "data event \<noteq> JNull"
  shows "uncaught (deliver cfg event w) = uncaught w"
  unfolding deliver_def
proof (rule run_listeners_invariant [where P = "\<lambda>w'. uncaught w' = uncaught w"])
  fix l and w' :: world
  assume v: "uncaught w' = uncaught w"
  show "uncaught (report (run_listener cfg l event w')) = uncaught w"
    using v by (cases l) (simp_all add: responseHandler_uncaught [OF assms] report_hIM hIM_fields report_None)
qed simp

lemma hIM_after_logs:
  assumes "handlers w1 = handlers w2" and "rng w1 = rng w2" and "drawn w1 = drawn w2"
      and "outbox w1 = outbox w2"
  shows "outbox (fst (handleIncomingMessage cfg event w1)) = outbox (fst (handleIncomingMessage cfg event w2))"
    and "invoked (fst (handleIncomingMessage cfg event w1)) =
           invoked w1 @ drop (length (invoked w2)) (invoked (fst (handleIncomingMessage cfg event w2)))"
  using assms
  by (simp_all add: handleIncomingMessage_def caught_def respond_def handleIncomingMessage_try_def Let_def
        generateMessageId_def postMessage_def
        split: sum.splits option.splits outcome.splits bool.splits prod.splits)

text \<open>
  C8. When the handler registered for an inbound request throws (or its promise rejects),
  the error is caught and logged inside the dispatch path: nothing escapes the listener,
  no response is posted, and the listener and the handler table are as before, so that
  the next inbound message is dispatched exactly as it would have been without the
  failed one.
\<close>

theorem handler_failure_contained:
  assumes "registered w"
      and "source event \<noteq> Some (ehrWindow cfg)"
      and "truthy (data event)" and "js_typeof (data event) = ''object''"
      and "get_prop (data event) ''messagingHandle'' = Inr (JStr (handle cfg))"
      and "has_prop ''messageType'' (data event) = Inr True"
      and "get_prop (data event) ''messageType'' = Inr messageType"
      and "handlers_get (handlers w) messageType = Some h"
      and "h (data event) = Throws e"
  shows "snd (handleIncomingMessage cfg event w) = None
       \<and> uncaught (deliver cfg event w) = uncaught w
       \<and> outbox (deliver cfg event w) = outbox w
       \<and> console (deliver cfg event w) =
           console w @ [ConsoleError ''Error handling incoming message:'' (Thrown e)]
       \<and> registered (deliver cfg event w)
       \<and> handlers (deliver cfg event w) = handlers w
       \<and> outbox (deliver cfg next_event (deliver cfg event w)) = outbox (deliver cfg next_event w)
       \<and> invoked (deliver cfg next_event (deliver cfg event w)) =
           invoked w @ [data event] @ drop (length (invoked w)) (invoked (deliver cfg next_event w))"
proof -
  let ?w' = "deliver cfg event w"
  have nn: "data event \<noteq> JUndefined" "data event \<noteq> JNull" using assms(3) by auto
  have r': "registered ?w'" by (rule deliver_registered [OF assms(1)])
  have v: "dispatch_view ?w' = dispatch_view (fst (handleIncomingMessage cfg event w))"
    by (rule deliver_view [OF assms(1)])
  have d: "handleIncomingMessage cfg event w =
      (w\<lparr>invoked := invoked w @ [data event],
         console := console w @ [ConsoleError ''Error handling incoming message:'' (Thrown e)]\<rparr>, None)"
    using hIM_dispatch [OF assms(2-8)] assms(9) by simp
  have f: "handlers ?w' = handlers w" "rng ?w' = rng w" "drawn ?w' = drawn w" "outbox ?w' = outbox w"
      "invoked ?w' = invoked w @ [data event]"
      "console ?w' = console w @ [ConsoleError ''Error handling incoming message:'' (Thrown e)]"
    using v d by (simp_all add: dispatch_view_def)
  have n1: "dispatch_view (deliver cfg next_event ?w') = dispatch_view (fst (handleIncomingMessage cfg next_event ?w'))"
    by (rule deliver_view [OF r'])
  have n2: "dispatch_view (deliver cfg next_event w) = dispatch_view (fst (handleIncomingMessage cfg next_event w))"
    by (rule deliver_view [OF assms(1)])
  have o: "outbox (deliver cfg next_event ?w') = outbox (deliver cfg next_event w)"
    using n1 n2 hIM_after_logs(1) [OF f(1-4), of cfg next_event] by (simp add: dispatch_view_def)
  have i: "invoked (deliver cfg next_event ?w') =
           invoked w @ [data event] @ drop (length (invoked w)) (invoked (deliver cfg next_event w))"
    using n1 n2 hIM_after_logs(2) [OF f(1-4), of cfg next_event] f(5) by (simp add: dispatch_view_def)
  show ?thesis using d deliver_uncaught [OF nn, of cfg w] r' f o i by simp
qed

theorem handler_failure_contained_witness:
  "outbox (deliver cfg0 persist_request two_handlers) = []
   \<and> uncaught (deliver cfg0 persist_request two_handlers) = []
   \<and> console (deliver cfg0 persist_request two_handlers) =
       [ConsoleError ''Error handling incoming message:'' (Thrown (JStr ''boom''))]
   \<and> map msg (outbox (deliver cfg0 validity_request (deliver cfg0 persist_request two_handlers))) =
       [JObj [(''messageId'', JStr ''k3x9a''),
              (''responseToMessageId'', JStr ''m2''),
              (''payload'', JObj [(''ok'', JBool True)]),
              (''additionalResponseExpected'', JBool False)]]"
proof -
  have r: "registered two_handlers"
    by (simp add: two_handlers_def registered_def on_def eval_defs)
  have f: "uncaught two_handlers = []" "outbox two_handlers = []" "console two_handlers = []"
      "handlers_get (handlers two_handlers) (JStr ''form.persist'') = Some failing_handler"
    by (simp_all add: two_handlers_def on_def eval_defs)
  have e: "source persist_request \<noteq> Some (ehrWindow cfg0)"
      "truthy (data persist_request)" "js_typeof (data persist_request) = ''object''"
      "get_prop (data persist_request) ''messagingHandle'' = Inr (JStr (handle cfg0))"
      "has_prop ''messageType'' (data persist_request) = Inr True"
      "get_prop (data persist_request) ''messageType'' = Inr (JStr ''form.persist'')"
    by (simp_all add: persist_request_def cfg0_def)
  have h: "failing_handler (data persist_request) = Throws (JStr ''boom'')"
    by (simp add: failing_handler_def)
  have n: "map msg (outbox (deliver cfg0 validity_request two_handlers)) =
       [JObj [(''messageId'', JStr ''k3x9a''),
              (''responseToMessageId'', JStr ''m2''),
              (''payload'', JObj [(''ok'', JBool True)]),
              (''additionalResponseExpected'', JBool False)]]"
    by (simp add: two_handlers_def validity_request_def persist_handler_def deliver_def
        handleIncomingMessage_def caught_def respond_def handleIncomingMessage_try_def response_message_def report_def
        on_def eval_defs)
  from handler_failure_contained [OF r e f(4) h, of validity_request] show ?thesis
    by (simp add: f n)
qed

subsection \<open>Once handed back, the promise of a request changes only by fulfilling\<close>

lemma evolves_refl: "evolves a a"
  by (simp add: evolves_def)

lemma tracked_cong:
  "promises w' = promises w \<Longrightarrow> tracked p a w' = tracked p a w"
  by (simp add: tracked_def)

lemma tracked_append: "tracked p a w \<Longrightarrow> promises w' = promises w @ xs \<Longrightarrow> tracked p a w'"
  by (simp add: tracked_def nth_append)

lemma tracked_resolve: "tracked p a w \<Longrightarrow> tracked p a (resolve q v w)"
  by (auto simp add: tracked_def resolve_defs evolves_def nth_list_update
      split: option.splits prod.splits pstate.splits)

lemma tracked_report: "tracked p a (report (w, x)) = tracked p a w"
  by (cases x) (simp_all add: report_def tracked_def)

lemma tracked_responseHandler:
  assumes "tracked p a w"
  shows "tracked p a (report (responseHandler cfg q m event w))"
proof -
  have "tracked p a (removeEventListener (ehrWindow cfg) (ResponseHandler q m) (resolve q (data event) w))
        = tracked p a (resolve q (data event) w)"
    by (rule tracked_cong) (simp add: removeEventListener_def)
  then show ?thesis
    using responseHandler_cases [of cfg q m event w] assms tracked_resolve [OF assms, of q "data event"]
    by (auto simp add: tracked_report)
qed

lemma tracked_run_listener:
  "tracked p a w \<Longrightarrow> tracked p a (report (run_listener cfg l event w))"
  by (cases l)
    (simp_all add: tracked_responseHandler report_None report_hIM
      tracked_cong [of "fst (handleIncomingMessage cfg event w)" w] hIM_fields)

lemma tracked_deliver: "tracked p a w \<Longrightarrow> tracked p a (deliver cfg event w)"
  unfolding deliver_def
  by (rule run_listeners_invariant [where P = "tracked p a"]) (erule tracked_run_listener)

lemma tracked_sendMessage: "tracked p a w \<Longrightarrow> tracked p a (snd (sendMessage cfg mt pl w))"
  using sendMessage_promises [of cfg mt pl w] by (auto elim: tracked_append)

lemma connect_promises:
  "promises (snd (connect cfg w)) = promises w \<or> (\<exists>s. promises (snd (connect cfg w)) = promises w @ [s])"
proof (cases "status w = Connecting \<and> pendingHandshake w \<noteq> None")
  case True
  then obtain p where "status w = Connecting" "pendingHandshake w = Some p" by blast
  then show ?thesis by (simp add: connect_join)
next
  case False
  then show ?thesis using connect_fresh(6) [OF False, of cfg] by blast
qed

lemma tracked_connect: "tracked p a w \<Longrightarrow> tracked p a (snd (connect cfg w))"
  using connect_promises [of cfg w] by (auto simp add: tracked_def nth_append)

lemma tracked_step: "tracked p a w \<Longrightarrow> tracked p a (step cfg b w)"
proof (cases b)
  case Close
  assume t: "tracked p a w"
  have "tracked p a (close cfg w) = tracked p a (snd (sendMessage cfg ''ui.close'' JUndefined w))"
    by (rule tracked_cong) (simp add: close_def cleanup_def removeEventListener_def)
  then show ?thesis using Close tracked_sendMessage [OF t] by simp
qed (simp_all add: tracked_connect tracked_sendMessage tracked_deliver,
     simp_all add: tracked_def timer_fires_def race_settled_def handshake_then_def
       handshake_catch_def setStatus_def on_def handler_settles_fields
       removeHandler_def addStatusListener_def removeStatusListener_def
       split: option.splits prod.splits pstate.splits)

lemma tracked_exec: "tracked p a w \<Longrightarrow> tracked p a (exec cfg acts w)"
  by (induction acts arbitrary: w) (simp_all add: tracked_step)

subsection \<open>An unanswered request stays pending\<close>

lemma waitingI:
  assumes "p < length (promises w)" and "promises w ! p = Pending"
      and "\<And>t m. ResponseHandler p m \<in> set (listeners w t) \<Longrightarrow> m = mid"
  shows "waiting p mid w"
  using assms unfolding waiting_def by blast

lemma waiting_listener: "waiting p mid w \<Longrightarrow> ResponseHandler p m \<in> set (listeners w t) \<Longrightarrow> m = mid"
  unfolding waiting_def by blast

lemma waiting_pending: "waiting p mid w \<Longrightarrow> p < length (promises w) \<and> promises w ! p = Pending"
  unfolding waiting_def by blast

lemma waiting_transfer:
  assumes w: "waiting p mid w"
      and pr: "promises w' = promises w @ xs"
      and ls: "\<And>t. set (listeners w' t) \<subseteq> set (listeners w t) \<union> {l. \<exists>q m. l = ResponseHandler q m \<and> length (promises w) \<le> q}
                 \<union> {Bound_handleIncomingMessage, Method_handleIncomingMessage}"
  shows "waiting p mid w'"
proof (rule waitingI)
  show "p < length (promises w')" using waiting_pending [OF w] pr by simp
  show "promises w' ! p = Pending" using waiting_pending [OF w] pr by (simp add: nth_append)
next
  fix t m assume "ResponseHandler p m \<in> set (listeners w' t)"
  then have "ResponseHandler p m \<in> set (listeners w t) \<or> length (promises w) \<le> p"
    using ls [of t] by auto
  then have "ResponseHandler p m \<in> set (listeners w t)"
    using waiting_pending [OF w] by auto
  then show "m = mid" by (rule waiting_listener [OF w])
qed

lemma waiting_cong:
  "promises w' = promises w \<Longrightarrow> listeners w' = listeners w \<Longrightarrow> waiting p mid w' = waiting p mid w"
  by (simp add: waiting_def)

lemma waiting_report: "waiting p mid (report (w, x)) = waiting p mid w"
  by (cases x) (simp_all add: report_def waiting_def)

lemma waiting_remove: 
  assumes "waiting p mid w" shows "waiting p mid (removeEventListener t l w)"
proof (rule waiting_transfer [OF assms, where xs = "[]"])
  show "promises (removeEventListener t l w) = promises w @ []" by (simp add: removeEventListener_def)
  fix t'
  show "set (listeners (removeEventListener t l w) t') \<subseteq> set (listeners w t') \<union> {l. \<exists>q m. l = ResponseHandler q m \<and> length (promises w) \<le> q}
                 \<union> {Bound_handleIncomingMessage, Method_handleIncomingMessage}"
    using removeEventListener_set [of t l w t'] by blast
qed

lemma waiting_resolve_other:
  assumes "waiting p mid w" and "q \<noteq> p"
  shows "waiting p mid (resolve q v w)"
proof (rule waitingI)
  show "p < length (promises (resolve q v w))" using waiting_pending [OF assms(1)] by (simp add: resolve_fields)
  show "promises (resolve q v w) ! p = Pending"
    using waiting_pending [OF assms(1)] assms(2)
    by (simp add: resolve_defs split: option.splits prod.splits pstate.splits)
next
  fix t m assume "ResponseHandler p m \<in> set (listeners (resolve q v w) t)"
  then have "ResponseHandler p m \<in> set (listeners w t)" by (simp add: resolve_fields)
  then show "m = mid" by (rule waiting_listener [OF assms(1)])
qed

lemma waiting_responseHandler:
  assumes w: "waiting p mid w"
      and l: "ResponseHandler q m \<in> set (listeners w globalWindow)"
      and n: "get_prop (data event) ''responseToMessageId'' \<noteq> Inr (JStr mid)"
  shows "waiting p mid (report (responseHandler cfg q m event w))"
proof (cases "q = p")
  case True
  then have "m = mid" using waiting_listener [OF w] l by blast
  then show ?thesis
    using responseHandler_no_match [of event m cfg q w] n w by (auto simp add: waiting_report)
next
  case False
  show ?thesis
    using responseHandler_cases [of cfg q m event w] w
      waiting_resolve_other [OF w False, of "data event"]
      waiting_remove [OF waiting_resolve_other [OF w False, of "data event"], of "ehrWindow cfg" "ResponseHandler q m"]
    by (auto simp add: waiting_report)
qed

lemma waiting_deliver:
  assumes w: "waiting p mid w"
      and n: "get_prop (data event) ''responseToMessageId'' \<noteq> Inr (JStr mid)"
  shows "waiting p mid (deliver cfg event w)"
  unfolding deliver_def
proof (rule run_listeners_invariant [where P = "waiting p mid"])
  fix l and w' :: world
  assume w': "waiting p mid w'" and l: "l \<in> set (listeners w' globalWindow)"
  show "waiting p mid (report (run_listener cfg l event w'))"
  proof (cases l)
    case (ResponseHandler q m)
    then show ?thesis using waiting_responseHandler [OF w' _ n, of q m cfg] l by simp
  next
    case Bound_handleIncomingMessage
    then show ?thesis using w'
      by (simp add: report_hIM waiting_cong [of "fst (handleIncomingMessage cfg event w')" w'] hIM_fields)
  next
    case Method_handleIncomingMessage
    then show ?thesis using w' by (simp add: report_None)
  qed
qed (rule w)

lemma waiting_sendMessage:
  assumes "waiting p mid w" shows "waiting p mid (snd (sendMessage cfg mt pl w))"
proof -
  obtain s where s: "promises (snd (sendMessage cfg mt pl w)) = promises w @ [s]"
    using sendMessage_promises [of cfg mt pl w] by blast
  show ?thesis
  proof (rule waiting_transfer [OF assms s])
  fix t
  show "set (listeners (snd (sendMessage cfg mt pl w)) t) \<subseteq> set (listeners w t) \<union> {l. \<exists>q m. l = ResponseHandler q m \<and> length (promises w) \<le> q}
                 \<union> {Bound_handleIncomingMessage, Method_handleIncomingMessage}"
    using sendMessage_listeners [of cfg mt pl w t] by auto
  qed
qed

lemma waiting_connect:
  assumes "waiting p mid w" shows "waiting p mid (snd (connect cfg w))"
proof (cases "status w = Connecting \<and> pendingHandshake w \<noteq> None")
  case True
  then obtain q where "status w = Connecting" "pendingHandshake w = Some q" by blast
  then have "connect cfg w = (q, w\<lparr>connectCalls := Suc (connectCalls w)\<rparr>)" by (rule connect_join)
  moreover have "waiting p mid (w\<lparr>connectCalls := Suc (connectCalls w)\<rparr>) = waiting p mid w"
    by (rule waiting_cong) simp_all
  ultimately show ?thesis using assms by simp
next
  case False
  note f = connect_fresh [OF False, of cfg]
  obtain s where s: "promises (snd (connect cfg w)) = promises w @ [s]"
    using f(6) by blast
  show ?thesis
  proof (rule waiting_transfer [OF assms s])
    fix t
    show "set (listeners (snd (connect cfg w)) t) \<subseteq> set (listeners w t) \<union> {l. \<exists>q m. l = ResponseHandler q m \<and> length (promises w) \<le> q}
                 \<union> {Bound_handleIncomingMessage, Method_handleIncomingMessage}"
      using f(7) [of t] by auto
  qed
qed

lemma waiting_close:
  assumes "waiting p mid w" shows "waiting p mid (close cfg w)"
proof -
  let ?w = "removeEventListener globalWindow Method_handleIncomingMessage
              (snd (sendMessage cfg ''ui.close'' JUndefined w))"
  have "waiting p mid ?w" by (intro waiting_remove waiting_sendMessage assms)
  moreover have "waiting p mid (?w\<lparr>statusListeners := [], handlers := []\<rparr>) = waiting p mid ?w"
    by (rule waiting_cong) simp_all
  ultimately show ?thesis by (simp add: close_def cleanup_def)
qed

lemma waiting_step:
  assumes w: "waiting p mid w"
      and n: "\<And>event. b = Deliver event \<Longrightarrow> get_prop (data event) ''responseToMessageId'' \<noteq> Inr (JStr mid)"
  shows "waiting p mid (step cfg b w)"
proof (cases b)
  case Connect
  then show ?thesis using w by (simp add: waiting_connect)
next
  case (SendMessage mt pl)
  then show ?thesis using w by (simp add: waiting_sendMessage)
next
  case (Deliver ev)
  then show ?thesis using w n by (simp add: waiting_deliver)
next
  case (TimerFires q)
  have "waiting p mid (timer_fires q w) = waiting p mid w"
    by (rule waiting_cong)
      (simp_all add: timer_fires_def handshake_catch_def setStatus_def
        split: option.splits prod.splits pstate.splits)
  then show ?thesis using TimerFires w by simp
next
  case (RaceSettled q)
  have "waiting p mid (race_settled q w) = waiting p mid w"
    by (rule waiting_cong)
      (simp_all add: race_settled_def handshake_then_def handshake_catch_def setStatus_def
        split: option.splits prod.splits pstate.splits)
  then show ?thesis using RaceSettled w by simp
next
  case (HandlerSettles i)
  have "waiting p mid (handler_settles cfg i w) = waiting p mid w"
    by (rule waiting_cong) (simp_all add: handler_settles_fields)
  then show ?thesis using HandlerSettles w by simp
next
  case (On mt h)
  have "waiting p mid (on mt h w) = waiting p mid w" by (rule waiting_cong) (simp_all add: on_def)
  then show ?thesis using On w by simp
next
  case (RemoveHandler mt)
  have "waiting p mid (snd (removeHandler mt w)) = waiting p mid w"
    by (rule waiting_cong) (simp_all add: removeHandler_def)
  then show ?thesis using RemoveHandler w by simp
next
  case (AddStatusListener l)
  have "waiting p mid (addStatusListener l w) = waiting p mid w"
    by (rule waiting_cong) (simp_all add: addStatusListener_def)
  then show ?thesis using AddStatusListener w by simp
next
  case (RemoveStatusListener l)
  have "waiting p mid (snd (removeStatusListener l w)) = waiting p mid w"
    by (rule waiting_cong) (simp_all add: removeStatusListener_def)
  then show ?thesis using RemoveStatusListener w by simp
next
  case Close
  then show ?thesis using w by (simp add: waiting_close)
qed

lemma waiting_exec:
  "waiting p mid w \<Longrightarrow>
   (\<And>event. Deliver event \<in> set acts \<Longrightarrow> get_prop (data event) ''responseToMessageId'' \<noteq> Inr (JStr mid)) \<Longrightarrow>
   waiting p mid (exec cfg acts w)"
proof (induction acts arbitrary: w)
  case Nil
  then show ?case by simp
next
  case (Cons b acts)
  have "waiting p mid (step cfg b w)"
    by (rule waiting_step [OF Cons.prems(1)]) (simp add: Cons.prems(2))
  then show ?case using Cons.IH Cons.prems(2) by simp
qed

lemma sendMessage_waiting:
  assumes c: "consistent w"
      and a: "endpoint cfg
                (request_message cfg mt (if pl = JUndefined then JObj [] else pl) (rng w (drawn w)))
                (case origin cfg of None \<Rightarrow> None | Some s \<Rightarrow> if s = [] then None else Some s) = None"
  shows "waiting (length (promises w)) (rng w (drawn w)) (snd (sendMessage cfg mt pl w))"
proof (rule waitingI)
  show "length (promises w) < length (promises (snd (sendMessage cfg mt pl w)))"
    by (simp add: sendMessage_fields)
  show "promises (snd (sendMessage cfg mt pl w)) ! length (promises w) = Pending"
    using a by (simp add: sendMessage_eq addEventListener_def)
next
  fix t m
  assume "ResponseHandler (length (promises w)) m \<in> set (listeners (snd (sendMessage cfg mt pl w)) t)"
  then have "m = rng w (drawn w) \<or> ResponseHandler (length (promises w)) m \<in> set (listeners w t)"
    using sendMessage_listeners [of cfg mt pl w t] by auto
  then show "m = rng w (drawn w)"
    using consistent_listener_bound [OF c, of "length (promises w)" m t] by auto
qed

subsection \<open>The first matching response fulfils the promise\<close>

lemma exec_append: "exec cfg (acts1 @ acts2) w = exec cfg acts2 (exec cfg acts1 w)"
  by (induction acts1 arbitrary: w) simp_all

lemma listeners_report: "listeners (report (w, x)) = listeners w"
  by (cases x) (simp_all add: report_def)

lemma responseHandler_keeps_other:
  assumes "l \<noteq> ResponseHandler q m" and "l \<in> set (listeners w t)"
  shows "l \<in> set (listeners (report (responseHandler cfg q m event w)) t)"
  using responseHandler_listeners [of cfg q m event w t] assms by auto

lemma run_listener_keeps_waiting:
  assumes w: "waiting p mid w" and reg: "ResponseHandler p mid \<in> set (listeners w globalWindow)"
      and l: "l \<in> set (listeners w globalWindow)" and ne: "l \<noteq> ResponseHandler p mid"
  shows "waiting p mid (report (run_listener cfg l event w))
       \<and> ResponseHandler p mid \<in> set (listeners (report (run_listener cfg l event w)) globalWindow)"
proof (cases l)
  case (ResponseHandler q m)
  have qp: "q \<noteq> p" using waiting_listener [OF w] l ne ResponseHandler by blast
  have "waiting p mid (report (responseHandler cfg q m event w))"
    using responseHandler_cases [of cfg q m event w] w
      waiting_resolve_other [OF w qp, of "data event"]
      waiting_remove [OF waiting_resolve_other [OF w qp, of "data event"], of "ehrWindow cfg" "ResponseHandler q m"]
    by (auto simp add: waiting_report)
  moreover have "ResponseHandler p mid \<in> set (listeners (report (responseHandler cfg q m event w)) globalWindow)"
    using responseHandler_keeps_other [OF _ reg, of q m cfg event] qp by simp
  ultimately show ?thesis using ResponseHandler by simp
next
  case Bound_handleIncomingMessage
  then show ?thesis using w reg
    by (simp add: report_hIM waiting_cong [of "fst (handleIncomingMessage cfg event w)" w] hIM_fields)
next
  case Method_handleIncomingMessage
  then show ?thesis using w reg by (simp add: report_None)
qed

lemma responseHandler_match:
  assumes w: "waiting p mid w"
      and m: "get_prop (data event) ''responseToMessageId'' = Inr (JStr mid)"
  shows "tracked p (Fulfilled (data event)) (report (responseHandler cfg p mid event w))"
proof -
  have nn: "data event \<noteq> JUndefined" "data event \<noteq> JNull" using m by auto
  obtain a where a: "get_prop (data event) ''additionalResponseExpected'' = Inr a"
    using get_prop_defined [OF nn] by blast
  have "promises (resolve p (data event) w) ! p = Fulfilled (data event)"
    and "p < length (promises (resolve p (data event) w))"
    using waiting_pending [OF w]
    by (simp_all add: resolve_defs split: option.splits prod.splits pstate.splits)
  then show ?thesis
    using m a by (simp add: responseHandler_def Let_def report_None tracked_def evolves_def
        removeEventListener_def)
qed

lemma tracked_run_listeners:
  "tracked p a w \<Longrightarrow> tracked p a (run_listeners cfg ls event w)"
  by (rule run_listeners_invariant [where P = "tracked p a"]) (erule tracked_run_listener)

lemma tracked_fulfilled: "tracked p (Fulfilled v) w \<Longrightarrow> promises w ! p = Fulfilled v"
  by (auto simp add: tracked_def evolves_def)

lemma run_listeners_match:
  "ResponseHandler p mid \<in> set ls \<Longrightarrow> waiting p mid w \<Longrightarrow>
   ResponseHandler p mid \<in> set (listeners w globalWindow) \<Longrightarrow>
   get_prop (data event) ''responseToMessageId'' = Inr (JStr mid) \<Longrightarrow>
   promises (run_listeners cfg ls event w) ! p = Fulfilled (data event)"
proof (induction ls arbitrary: w)
  case Nil
  then show ?case by simp
next
  case (Cons l ls)
  show ?case
  proof (cases "l = ResponseHandler p mid")
    case True
    have "tracked p (Fulfilled (data event)) (report (responseHandler cfg p mid event w))"
      by (rule responseHandler_match [OF Cons.prems(2,4)])
    then have "tracked p (Fulfilled (data event))
                 (run_listeners cfg ls event (report (responseHandler cfg p mid event w)))"
      by (rule tracked_run_listeners)
    then show ?thesis using True Cons.prems(3) by (simp add: tracked_fulfilled)
  next
    case False
    then have in_ls: "ResponseHandler p mid \<in> set ls" using Cons.prems(1) by auto
    show ?thesis
    proof (cases "l \<in> set (listeners w globalWindow)")
      case True
      note k = run_listener_keeps_waiting [OF Cons.prems(2,3) True False, of cfg event]
      show ?thesis using True Cons.IH [OF in_ls _ _ Cons.prems(4)] k by simp
    next
      case nr: False
      show ?thesis using nr Cons.IH [OF in_ls Cons.prems(2,3,4)] by simp
    qed
  qed
qed

lemma deliver_match_fulfils:
  assumes "waiting p mid w" and "ResponseHandler p mid \<in> set (listeners w globalWindow)"
      and "get_prop (data event) ''responseToMessageId'' = Inr (JStr mid)"
  shows "promises (deliver cfg event w) ! p = Fulfilled (data event)"
  unfolding deliver_def by (rule run_listeners_match [OF assms(2,1,2,3)])

lemma deliver_keeps_listener:
  assumes w: "waiting p mid w" and reg: "ResponseHandler p mid \<in> set (listeners w globalWindow)"
      and n: "get_prop (data event) ''responseToMessageId'' \<noteq> Inr (JStr mid)"
  shows "ResponseHandler p mid \<in> set (listeners (deliver cfg event w) globalWindow)"
proof -
  let ?P = "\<lambda>w'. waiting p mid w' \<and> ResponseHandler p mid \<in> set (listeners w' globalWindow)"
  have "?P (run_listeners cfg (listeners w globalWindow) event w)"
  proof (rule run_listeners_invariant [where P = ?P])
    fix l and w' :: world
    assume p': "?P w'" and l: "l \<in> set (listeners w' globalWindow)"
    show "?P (report (run_listener cfg l event w'))"
    proof (cases "l = ResponseHandler p mid")
      case True
      then show ?thesis
        using responseHandler_no_match [of event mid cfg p w'] n p'
        by (auto simp add: waiting_report listeners_report)
    next
      case False
      then show ?thesis using run_listener_keeps_waiting [of p mid w' l cfg event] p' l by blast
    qed
  qed (simp add: w reg)
  then show ?thesis by (simp add: deliver_def)
qed

lemma step_keeps_listener:
  assumes w: "waiting p mid w" and reg: "ResponseHandler p mid \<in> set (listeners w globalWindow)"
      and n: "\<And>event. b = Deliver event \<Longrightarrow> get_prop (data event) ''responseToMessageId'' \<noteq> Inr (JStr mid)"
  shows "ResponseHandler p mid \<in> set (listeners (step cfg b w) globalWindow)"
proof (cases b)
  case (Deliver ev)
  then show ?thesis using deliver_keeps_listener [OF w reg, of ev cfg] n by simp
next
  case Connect
  then show ?thesis using reg
    by (simp add: connect_def withTimeout_def sendMessage_eq addEventListener_def setStatus_def
        Let_def split: option.splits)
next
  case (SendMessage mt pl)
  then show ?thesis using reg by (simp add: sendMessage_eq addEventListener_def)
next
  case (TimerFires q)
  then show ?thesis using reg
    by (simp add: timer_fires_def handshake_catch_def setStatus_def
        split: option.splits prod.splits pstate.splits)
next
  case (RaceSettled q)
  then show ?thesis using reg
    by (simp add: race_settled_def handshake_then_def handshake_catch_def setStatus_def
        split: option.splits prod.splits pstate.splits)
next
  case (HandlerSettles i)
  then show ?thesis using reg by (simp add: handler_settles_fields)
next
  case Close
  then show ?thesis using reg
    by (simp add: close_def cleanup_def sendMessage_eq addEventListener_def removeEventListener_def)
qed (use reg in \<open>simp_all add: on_def removeHandler_def addStatusListener_def removeStatusListener_def\<close>)

lemma exec_keeps_listener:
  "waiting p mid w \<Longrightarrow> ResponseHandler p mid \<in> set (listeners w globalWindow) \<Longrightarrow>
   (\<And>event. Deliver event \<in> set acts \<Longrightarrow> get_prop (data event) ''responseToMessageId'' \<noteq> Inr (JStr mid)) \<Longrightarrow>
   ResponseHandler p mid \<in> set (listeners (exec cfg acts w) globalWindow)"
proof (induction acts arbitrary: w)
  case Nil
  then show ?case by simp
next
  case (Cons b acts)
  have 1: "waiting p mid (step cfg b w)"
    by (rule waiting_step [OF Cons.prems(1)]) (simp add: Cons.prems(3))
  have 2: "ResponseHandler p mid \<in> set (listeners (step cfg b w) globalWindow)"
    by (rule step_keeps_listener [OF Cons.prems(1,2)]) (simp add: Cons.prems(3))
  show ?case using Cons.IH [OF 1 2] Cons.prems(3) by simp
qed

lemma sendMessage_registers:
  "ResponseHandler (length (promises w)) (rng w (drawn w))
     \<in> set (listeners (snd (sendMessage cfg mt pl w)) globalWindow)"
  by (simp add: sendMessage_eq addEventListener_def)

text \<open>
  What does hold of the correlation of responses: in any run after a \<open>sendMessage\<close>
  whose request the endpoint accepted, messages that do not carry the request's
  identifier leave its promise pending, the first one that carries it fulfils the
  promise with that message, and nothing that happens later changes the promise again.
\<close>

lemma first_matching_response_wins:
  assumes "w = exec cfg acts0 (new_connector cfg r)"
      and "endpoint cfg
             (request_message cfg messageType (if payload = JUndefined then JObj [] else payload)
                (rng w (drawn w)))
             (case origin cfg of None \<Rightarrow> None | Some s \<Rightarrow> if s = [] then None else Some s) = None"
      and "\<And>e. Deliver e \<in> set before \<Longrightarrow>
             get_prop (data e) ''responseToMessageId'' \<noteq> Inr (JStr (rng w (drawn w)))"
      and "get_prop (data event) ''responseToMessageId'' = Inr (JStr (rng w (drawn w)))"
  shows "promises (exec cfg before (snd (sendMessage cfg messageType payload w)))
           ! fst (sendMessage cfg messageType payload w) = Pending"
    and "promises (exec cfg (before @ Deliver event # after) (snd (sendMessage cfg messageType payload w)))
           ! fst (sendMessage cfg messageType payload w) = Fulfilled (data event)"
proof -
  let ?p = "fst (sendMessage cfg messageType payload w)"
  let ?w1 = "snd (sendMessage cfg messageType payload w)"
  let ?mid = "rng w (drawn w)"
  have c: "consistent w" unfolding assms(1) by (rule consistent_reachable)
  have p: "?p = length (promises w)" by (rule sendMessage_fields)
  have wt: "waiting ?p ?mid ?w1" unfolding p by (rule sendMessage_waiting [OF c assms(2)])
  have reg: "ResponseHandler ?p ?mid \<in> set (listeners ?w1 globalWindow)"
    unfolding p by (rule sendMessage_registers)
  have w2: "waiting ?p ?mid (exec cfg before ?w1)"
    by (rule waiting_exec [OF wt]) (rule assms(3))
  have r2: "ResponseHandler ?p ?mid \<in> set (listeners (exec cfg before ?w1) globalWindow)"
    by (rule exec_keeps_listener [OF wt reg]) (rule assms(3))
  show "promises (exec cfg before ?w1) ! ?p = Pending"
    using waiting_pending [OF w2] by simp
  have f: "promises (deliver cfg event (exec cfg before ?w1)) ! ?p = Fulfilled (data event)"
    by (rule deliver_match_fulfils [OF w2 r2 assms(4)])
  have "?p < length (promises (deliver cfg event (exec cfg before ?w1)))"
    using tracked_deliver [of ?p Pending "exec cfg before ?w1" cfg event] waiting_pending [OF w2]
    by (simp add: tracked_def evolves_refl)
  then have "tracked ?p (Fulfilled (data event)) (deliver cfg event (exec cfg before ?w1))"
    using f by (simp add: tracked_def evolves_refl)
  then have "tracked ?p (Fulfilled (data event))
               (exec cfg after (deliver cfg event (exec cfg before ?w1)))"
    by (rule tracked_exec)
  then show "promises (exec cfg (before @ Deliver event # after) ?w1) ! ?p = Fulfilled (data event)"
    by (simp add: exec_append tracked_fulfilled)
qed

subsection \<open>When the promise of a request is rejected\<close>

lemma tracked_rejected: "tracked p (Rejected e) w \<Longrightarrow> promises w ! p = Rejected e"
  by (auto simp add: tracked_def evolves_def)

text \<open>
  C9 (as amended). The promise returned by \<open>sendMessage\<close> is rejected in one case only:
  when the endpoint's \<open>postMessage\<close> throws while the request is being posted. Then the
  promise is rejected with that exception from the start, and stays so whatever happens
  afterwards. When the endpoint accepts the request, the promise is never rejected,
  whatever happens to the connector afterwards (further calls, deliveries, timers
  firing), and as long as no delivered message carries the request's identifier as
  \<open>responseToMessageId\<close> it stays pending. A timeout comes only from the wrapper: when
  the timer of an open \<open>withTimeout\<close> race fires, the race rejects (for a delay that is
  a safe integer, with the error \<open>Operation timed out after <delay> ms\<close>), and the
  promises of the requests are left as they are.
\<close>

theorem sendMessage_rejects_only_when_posting_throws:
  assumes "w = exec cfg acts0 (new_connector cfg r)"
  shows "fst (sendMessage cfg messageType payload w) <
           length (promises (exec cfg acts (snd (sendMessage cfg messageType payload w))))
       \<and> (endpoint cfg
             (request_message cfg messageType (if payload = JUndefined then JObj [] else payload)
                (rng w (drawn w)))
             (case origin cfg of None \<Rightarrow> None | Some s \<Rightarrow> if s = [] then None else Some s) = None
            \<longrightarrow> (\<forall>e. promises (exec cfg acts (snd (sendMessage cfg messageType payload w)))
                       ! fst (sendMessage cfg messageType payload w) \<noteq> Rejected e)
              \<and> ((\<forall>event. Deliver event \<in> set acts \<longrightarrow>
                     get_prop (data event) ''responseToMessageId'' \<noteq> Inr (JStr (rng w (drawn w))))
                   \<longrightarrow> promises (exec cfg acts (snd (sendMessage cfg messageType payload w)))
                         ! fst (sendMessage cfg messageType payload w) = Pending))
       \<and> (\<forall>e. endpoint cfg
                 (request_message cfg messageType (if payload = JUndefined then JObj [] else payload)
                    (rng w (drawn w)))
                 (case origin cfg of None \<Rightarrow> None | Some s \<Rightarrow> if s = [] then None else Some s) = Some e
            \<longrightarrow> promises (exec cfg acts (snd (sendMessage cfg messageType payload w)))
                  ! fst (sendMessage cfg messageType payload w) = Rejected e)
       \<and> (races w' q = Some (ms, Pending) \<longrightarrow>
              (\<exists>e. races (timer_fires q w') q = Some (ms, Rejected e))
            \<and> (\<bar>ms\<bar> \<le> 9007199254740991 \<longrightarrow>
                 races (timer_fires q w') q =
                   Some (ms, Rejected (Error (''Operation timed out after '' @ show_int ms @ '' ms''))))
            \<and> promises (timer_fires q w') = promises w')"
proof -
  let ?p = "fst (sendMessage cfg messageType payload w)"
  let ?w1 = "snd (sendMessage cfg messageType payload w)"
  let ?verdict = "endpoint cfg
             (request_message cfg messageType (if payload = JUndefined then JObj [] else payload)
                (rng w (drawn w)))
             (case origin cfg of None \<Rightarrow> None | Some s \<Rightarrow> if s = [] then None else Some s)"
  have c: "consistent w" unfolding assms by (rule consistent_reachable)
  have p: "?p = length (promises w)" by (rule sendMessage_fields)
  have l: "?p < length (promises ?w1)" by (simp add: sendMessage_fields)
  have "tracked ?p (promises ?w1 ! ?p) ?w1" using l by (simp add: tracked_def evolves_refl)
  then have t: "tracked ?p (promises ?w1 ! ?p) (exec cfg acts ?w1)" by (rule tracked_exec)
  then have 1: "?p < length (promises (exec cfg acts ?w1))" by (simp add: tracked_def)
  have 2: "\<forall>e. promises (exec cfg acts ?w1) ! ?p \<noteq> Rejected e" if a: "?verdict = None"
  proof -
    have "promises ?w1 ! ?p = Pending" using a by (simp add: sendMessage_eq addEventListener_def)
    then show ?thesis using t by (auto simp add: tracked_def evolves_def)
  qed
  have 3: "promises (exec cfg acts ?w1) ! ?p = Pending"
    if a: "?verdict = None"
      and "\<forall>event. Deliver event \<in> set acts \<longrightarrow>
              get_prop (data event) ''responseToMessageId'' \<noteq> Inr (JStr (rng w (drawn w)))"
  proof -
    have wt: "waiting ?p (rng w (drawn w)) ?w1"
      unfolding p by (rule sendMessage_waiting [OF c a])
    show ?thesis using waiting_pending [OF waiting_exec [OF wt, of acts cfg]] that(2) by blast
  qed
  have 4: "promises (exec cfg acts ?w1) ! ?p = Rejected e" if a: "?verdict = Some e" for e
  proof -
    have "promises ?w1 ! ?p = Rejected e" using a by (simp add: sendMessage_eq addEventListener_def)
    then show ?thesis using t by (simp add: tracked_rejected)
  qed
  have 5: "(\<exists>e. races (timer_fires q w') q = Some (ms, Rejected e))
            \<and> (\<bar>ms\<bar> \<le> 9007199254740991 \<longrightarrow>
                 races (timer_fires q w') q =
                   Some (ms, Rejected (Error (''Operation timed out after '' @ show_int ms @ '' ms''))))
            \<and> promises (timer_fires q w') = promises w'"
    if "races w' q = Some (ms, Pending)"
    using that by (simp add: timer_fires_def handshake_catch_def timeout_error_def setStatus_def)
  show ?thesis using 1 2 3 4 5 by blast
qed

theorem sendMessage_rejects_only_when_posting_throws_witness:
  "(fst (sendMessage cfg0 ''form.requestSubmit'' JUndefined (new_connector cfg0 rng0)) = 0)
   \<and> get_prop (data persist_request) ''responseToMessageId'' \<noteq> Inr (JStr ''k3x9a'')
   \<and> get_prop JNull ''responseToMessageId'' \<noteq> Inr (JStr ''k3x9a'')
   \<and> promises (exec cfg0 busy_run
        (snd (sendMessage cfg0 ''form.requestSubmit'' JUndefined (new_connector cfg0 rng0)))) ! 0 = Pending
   \<and> promises (exec cfg_window busy_run
        (snd (sendMessage cfg_window ''form.requestSubmit'' callback_payload
               (new_connector cfg_window rng0)))) ! 0 = Rejected (DOMException ''DataCloneError'')
   \<and> promises (exec cfg_window busy_run
        (snd (sendMessage cfg_window ''form.requestSubmit'' JUndefined
               (new_connector cfg_window rng0)))) ! 0 = Pending
   \<and> races (exec cfg0 [Connect] (new_connector cfg0 rng0)) 0 = Some (50, Pending)
   \<and> races (timer_fires 0 (exec cfg0 [Connect] (new_connector cfg0 rng0))) 0 =
        Some (50, Rejected (Error ''Operation timed out after 50 ms''))
   \<and> promises (timer_fires 0 (exec cfg0 [Connect] (new_connector cfg0 rng0))) = [Pending]"
proof -
  let ?c = "exec cfg0 [Connect] (new_connector cfg0 rng0)"
  have e: "new_connector cfg rng0 = exec cfg [] (new_connector cfg rng0)" for cfg by simp
  have p: "fst (sendMessage cfg0 ''form.requestSubmit'' pl (new_connector cfg0 rng0)) = 0"
      "fst (sendMessage cfg_window ''form.requestSubmit'' pl (new_connector cfg_window rng0)) = 0" for pl
    by (simp_all add: sendMessage_fields new_connector_def setupMessageListener_def addEventListener_def
        cfg0_def cfg_window_def)
  have i: "rng (new_connector cfg0 rng0) (drawn (new_connector cfg0 rng0)) = ''k3x9a''"
      "rng (new_connector cfg_window rng0) (drawn (new_connector cfg_window rng0)) = ''k3x9a''"
    by (simp_all add: eval_defs cfg_window_def)
  have h: "get_prop (data persist_request) ''responseToMessageId'' \<noteq> Inr (JStr ''k3x9a'')"
      "get_prop JNull ''responseToMessageId'' \<noteq> Inr (JStr ''k3x9a'')"
    by (simp_all add: persist_request_def)
  have a: "\<forall>event. Deliver event \<in> set busy_run \<longrightarrow>
              get_prop (data event) ''responseToMessageId'' \<noteq> Inr (JStr ''k3x9a'')"
    using h by (auto simp add: busy_run_def)
  have v: "endpoint cfg0 m t = None"
      "endpoint cfg_window
         (request_message cfg_window ''form.requestSubmit'' (JObj []) ''k3x9a'') None = None"
      "endpoint cfg_window
         (request_message cfg_window ''form.requestSubmit'' callback_payload ''k3x9a'') None
       = Some (DOMException ''DataCloneError'')"
      "origin cfg0 = None" "origin cfg_window = None" "callback_payload \<noteq> JUndefined"
    for m t
    by (simp_all add: cfg0_def cfg_window_def window_postMessage_def request_message_def
        callback_payload_def)
  have r: "races ?c 0 = Some (50, Pending)" "promises ?c = [Pending]"
    by (simp_all add: eval_defs)
  have s: "show_int 50 = ''50''"
    by (simp add: show_int_def show_nat.simps digit_char_def)
  note t0 = sendMessage_rejects_only_when_posting_throws
    [OF e, of cfg0 "''form.requestSubmit''" JUndefined busy_run ?c 0 50]
  note t1 = sendMessage_rejects_only_when_posting_throws
    [OF e, of cfg_window "''form.requestSubmit''" callback_payload busy_run]
  note t2 = sendMessage_rejects_only_when_posting_throws
    [OF e, of cfg_window "''form.requestSubmit''" JUndefined busy_run]
  from t0 a have "promises (exec cfg0 busy_run
        (snd (sendMessage cfg0 ''form.requestSubmit'' JUndefined (new_connector cfg0 rng0))))
        ! 0 = Pending"
    by (simp add: p i v)
  moreover from t1 have "promises (exec cfg_window busy_run
        (snd (sendMessage cfg_window ''form.requestSubmit'' callback_payload
               (new_connector cfg_window rng0)))) ! 0 = Rejected (DOMException ''DataCloneError'')"
    by (simp add: p i v)
  moreover from t2 a have "promises (exec cfg_window busy_run
        (snd (sendMessage cfg_window ''form.requestSubmit'' JUndefined
               (new_connector cfg_window rng0)))) ! 0 = Pending"
    by (simp add: p i v)
  moreover from t0 r(1) have "races (timer_fires 0 ?c) 0 =
        Some (50, Rejected (Error (''Operation timed out after '' @ show_int 50 @ '' ms'')))
      \<and> promises (timer_fires 0 ?c) = promises ?c"
    by simp
  ultimately show ?thesis using p h r by (simp add: s)
qed

text \<open>
  A request whose payload holds a function cannot be cloned by the \<open>postMessage\<close> of a
  window: the call throws, and the promise that \<open>sendMessage\<close> returns is rejected. A
  response that names the request does not change that any more.
\<close>

theorem sendMessage_rejects_counterexample:
  "endpoint cfg_window
      (request_message cfg_window ''form.requestSubmit'' callback_payload ''k3x9a'') None
     = Some (DOMException ''DataCloneError'')
   \<and> sendMessage cfg_window ''form.requestSubmit'' callback_payload (new_connector cfg_window rng0)
     = (0, (new_connector cfg_window rng0)
            \<lparr>listeners := (\<lambda>t. if t = 0 then [Bound_handleIncomingMessage, ResponseHandler 0 ''k3x9a'']
                                else []),
             promises := [Rejected (DOMException ''DataCloneError'')],
             outbox := [\<lparr>target = 1,
                         msg = JObj [(''messageType'', JStr ''form.requestSubmit''),
                                     (''payload'', JObj [(''onDone'', JFun 0)]),
                                     (''messageId'', JStr ''k3x9a''),
                                     (''messagingHandle'', JStr ''h1'')],
                         targetOrigin = None\<rparr>],
             drawn := 1\<rparr>)
   \<and> promises (deliver cfg_window final_response
        (snd (sendMessage cfg_window ''form.requestSubmit'' callback_payload
               (new_connector cfg_window rng0))))
     = [Rejected (DOMException ''DataCloneError'')]"
  by (auto simp add: cfg_window_def window_postMessage_def callback_payload_def final_response_def
      deliver_def responseHandler_def resolve_def handshake_then_def report_def
      handleIncomingMessage_def caught_def respond_def handleIncomingMessage_try_def
      rng0_def new_connector_def setupMessageListener_def globalWindow_def
      sendMessage_def generateMessageId_def addEventListener_def
      removeEventListener_def postMessage_def request_message_def Let_def fun_eq_iff)

text \<open>
  For a handshake whose request the endpoint accepted: when its timer fires first, the
  race and the chain reject with the timeout error and the promise of the handshake
  request stays as it is. For one whose request the endpoint refused, the race is
  rejected from the start, and the chain rejects with the endpoint's exception as soon
  as the caller of \<open>connect\<close> gives up control.
\<close>

lemma handshake_timeout_rejects_chain_only:
  assumes "w = exec cfg acts (new_connector cfg r)"
      and "races (snd (connect cfg w)) (fst (connect cfg w)) = Some (ms, Pending)"
  shows "chains (timer_fires (fst (connect cfg w)) (snd (connect cfg w))) (fst (connect cfg w))
               = Some (HRejected (timeout_error ms))
       \<and> races (timer_fires (fst (connect cfg w)) (snd (connect cfg w))) (fst (connect cfg w))
               = Some (ms, Rejected (timeout_error ms))
       \<and> promises (timer_fires (fst (connect cfg w)) (snd (connect cfg w)))
               = promises (snd (connect cfg w))"
proof -
  have c: "consistent (snd (connect cfg w))"
    unfolding assms(1) by (intro consistent_connect consistent_reachable)
  have "chains (snd (connect cfg w)) (fst (connect cfg w)) = Some HPending"
    using consistent_connecting [OF c] connect_post [of cfg w] by blast
  from timer_fires_pending [OF c this assms(2)] show ?thesis by (simp add: setStatus_def)
qed

lemma handshake_refused_rejects_chain:
  assumes "w = exec cfg acts (new_connector cfg r)"
      and "races (snd (connect cfg w)) (fst (connect cfg w)) = Some (ms, Rejected e)"
  shows "chains (race_settled (fst (connect cfg w)) (snd (connect cfg w))) (fst (connect cfg w))
               = Some (HRejected e)
       \<and> status (race_settled (fst (connect cfg w)) (snd (connect cfg w))) = StatusError"
proof -
  have c: "consistent (snd (connect cfg w))"
    unfolding assms(1) by (intro consistent_connect consistent_reachable)
  have "chains (snd (connect cfg w)) (fst (connect cfg w)) = Some HPending"
    using consistent_connecting [OF c] connect_post [of cfg w] by blast
  then show ?thesis
    using assms(2) connect_post [of cfg w]
    by (simp add: race_settled_def handshake_catch_def setStatus_def)
qed

subsection \<open>Deregistration\<close>

text \<open>
  C1, evaluated where the peer endpoint is another window than the page's own (an
  embedded page talking to its parent): the response listener was added to the global
  \<open>window\<close> but is removed from \<open>ehrWindow\<close>, so after the final response
  (\<open>additionalResponseExpected = false\<close>) has fulfilled the promise the listener is still
  registered. Only a connector whose \<open>ehrWindow\<close> is the global window itself
  deregisters it.
\<close>

theorem response_listener_stays_registered:
  "ehrWindow cfg0 \<noteq> globalWindow
   \<and> get_prop (data final_response) ''additionalResponseExpected'' = Inr (JBool False)
   \<and> promises (deliver cfg0 final_response
        (snd (sendMessage cfg0 ''form.requestSubmit'' JUndefined (new_connector cfg0 rng0)))) ! 0
       = Fulfilled (data final_response)
   \<and> listeners (deliver cfg0 final_response
        (snd (sendMessage cfg0 ''form.requestSubmit'' JUndefined (new_connector cfg0 rng0)))) globalWindow
       = [Bound_handleIncomingMessage, ResponseHandler 0 ''k3x9a'']
   \<and> listeners (deliver cfg_same_window final_response
        (snd (sendMessage cfg_same_window ''form.requestSubmit'' JUndefined
               (new_connector cfg_same_window rng0)))) globalWindow
       = [Bound_handleIncomingMessage]"
  by (simp add: final_response_def cfg_same_window_def deliver_def responseHandler_def resolve_def handshake_then_def
      report_def handleIncomingMessage_def caught_def respond_def handleIncomingMessage_try_def eval_defs)

text \<open>
  More generally, when the peer endpoint is not the global window, nothing a connector
  does ever removes a response listener (or the bound inbound listener) from the global
  window.
\<close>

lemma response_listener_never_removed:
  assumes "ehrWindow cfg \<noteq> globalWindow"
  shows "l \<in> set (listeners w globalWindow) \<Longrightarrow> l \<noteq> Method_handleIncomingMessage \<Longrightarrow>
         l \<in> set (listeners (exec cfg acts w) globalWindow)"
proof (induction acts arbitrary: w)
  case Nil
  then show ?case by simp
next
  case (Cons a acts)
  have "l \<in> set (listeners (step cfg a w) globalWindow)"
  proof (cases a)
    case (Deliver ev)
    let ?P = "\<lambda>w'. l \<in> set (listeners w' globalWindow)"
    have "?P (run_listeners cfg (listeners w globalWindow) ev w)"
    proof (rule run_listeners_invariant [where P = ?P])
      fix k and w' :: world
      assume m: "l \<in> set (listeners w' globalWindow)"
      show "l \<in> set (listeners (report (run_listener cfg k ev w')) globalWindow)"
      proof (cases k)
        case (ResponseHandler p m')
        have "listeners (report (responseHandler cfg p m' ev w')) globalWindow = listeners w' globalWindow"
          using responseHandler_cases [of cfg p m' ev w'] assms
          by (auto simp add: report_def resolve_listeners removeEventListener_def)
        then show ?thesis using m ResponseHandler by simp
      next
        case Bound_handleIncomingMessage
        then show ?thesis using m by (simp add: report_hIM hIM_fields)
      next
        case Method_handleIncomingMessage
        then show ?thesis using m by (simp add: report_None)
      qed
    qed (rule Cons.prems(1))
    then show ?thesis using Deliver by (simp add: deliver_def)
  next
    case Connect
    then show ?thesis using Cons.prems(1)
      by (simp add: connect_def withTimeout_def sendMessage_eq addEventListener_def setStatus_def
          Let_def split: option.splits)
  next
    case (SendMessage mt pl)
    then show ?thesis using Cons.prems(1) by (simp add: sendMessage_eq addEventListener_def)
  next
    case (TimerFires q)
    then show ?thesis using Cons.prems(1)
      by (simp add: timer_fires_def handshake_catch_def setStatus_def
          split: option.splits prod.splits pstate.splits)
  next
    case (RaceSettled q)
    then show ?thesis using Cons.prems(1)
      by (simp add: race_settled_def handshake_then_def handshake_catch_def setStatus_def
          split: option.splits prod.splits pstate.splits)
  next
    case (HandlerSettles i)
    then show ?thesis using Cons.prems(1) by (simp add: handler_settles_fields)
  next
    case Close
    then show ?thesis using Cons.prems
      by (simp add: close_def cleanup_def sendMessage_eq addEventListener_def removeEventListener_def)
  qed (use Cons.prems(1) in \<open>simp_all add: on_def removeHandler_def addStatusListener_def
        removeStatusListener_def\<close>)
  then show ?case using Cons.IH Cons.prems(2) by simp
qed

text \<open>
  C6, evaluated on a connector with one handler: \<open>close\<close> posts \<open>ui.close\<close>, empties
  the handler table and the status listeners and leaves the status alone, but the
  inbound listener registered at construction (the bound copy of
  \<open>handleIncomingMessage\<close>) is still registered afterwards, because \<open>cleanup\<close> asks
  to remove the unbound method. A handler registered after \<open>close\<close> is therefore still
  invoked and answered.
\<close>

theorem close_keeps_inbound_listener:
  "getHandlerCount (close cfg0 (on ''form.persist'' persist_handler (new_connector cfg0 rng0))) = 0
   \<and> statusListeners (close cfg0 (on ''form.persist'' persist_handler (new_connector cfg0 rng0))) = []
   \<and> status (close cfg0 (on ''form.persist'' persist_handler (new_connector cfg0 rng0))) = Disconnected
   \<and> map msg (outbox (close cfg0 (on ''form.persist'' persist_handler (new_connector cfg0 rng0))))
       = [JObj [(''messageType'', JStr ''ui.close''), (''payload'', JObj []),
                (''messageId'', JStr ''k3x9a''), (''messagingHandle'', JStr ''h1'')]]
   \<and> listeners (new_connector cfg0 rng0) globalWindow = [Bound_handleIncomingMessage]
   \<and> listeners (close cfg0 (on ''form.persist'' persist_handler (new_connector cfg0 rng0))) globalWindow
       = [Bound_handleIncomingMessage, ResponseHandler 0 ''k3x9a'']
   \<and> invoked (deliver cfg0 persist_request
        (on ''form.persist'' persist_handler
          (close cfg0 (on ''form.persist'' persist_handler (new_connector cfg0 rng0)))))
       = [data persist_request]
   \<and> map msg (outbox (deliver cfg0 persist_request
        (on ''form.persist'' persist_handler
          (close cfg0 (on ''form.persist'' persist_handler (new_connector cfg0 rng0))))))
       = [JObj [(''messageType'', JStr ''ui.close''), (''payload'', JObj []),
                (''messageId'', JStr ''k3x9a''), (''messagingHandle'', JStr ''h1'')],
          JObj [(''messageId'', JStr ''p07rw''), (''responseToMessageId'', JStr ''m1''),
                (''payload'', JObj [(''ok'', JBool True)]),
                (''additionalResponseExpected'', JBool False)]]"
  by (simp add: close_def cleanup_def on_def getHandlerCount_def persist_request_def
      persist_handler_def deliver_def responseHandler_def resolve_def handshake_then_def
      report_def handleIncomingMessage_def caught_def respond_def handleIncomingMessage_try_def response_message_def
      eval_defs)

text \<open>What \<open>close\<close> does in general.\<close>

lemma close_effect:
  "handlers (close cfg w) = [] \<and> statusListeners (close cfg w) = [] \<and> status (close cfg w) = status w
   \<and> outbox (close cfg w) = outbox w @
        [\<lparr>target = ehrWindow cfg,
          msg = request_message cfg ''ui.close'' (JObj []) (rng w (drawn w)),
          targetOrigin = (case origin cfg of None \<Rightarrow> None | Some s \<Rightarrow> if s = [] then None else Some s)\<rparr>]
   \<and> (Bound_handleIncomingMessage \<in> set (listeners (close cfg w) globalWindow)
        \<longleftrightarrow> Bound_handleIncomingMessage \<in> set (listeners w globalWindow))"
  by (simp add: close_def cleanup_def sendMessage_eq addEventListener_def removeEventListener_def)

subsection \<open>Suspended runs and refused responses\<close>

text \<open>
  A run of \<open>handleIncomingMessage\<close> that is suspended at its \<open>await\<close> stays so, at the
  same place, until the promise of some handler settles.
\<close>

lemma suspended_run_listeners:
  "\<exists>ys. suspended w = xs @ ys \<Longrightarrow> \<exists>ys. suspended (run_listeners cfg ls event w) = xs @ ys"
proof (rule run_listeners_invariant [where P = "\<lambda>w'. \<exists>ys. suspended w' = xs @ ys"])
  fix l and w' :: world
  assume p: "\<exists>ys. suspended w' = xs @ ys"
  show "\<exists>ys. suspended (report (run_listener cfg l event w')) = xs @ ys"
  proof (cases l)
    case (ResponseHandler q m)
    have "suspended (report (responseHandler cfg q m event w')) = suspended w'"
      using responseHandler_view [of cfg q m event w'] by (simp add: dispatch_view_def)
    then show ?thesis using p ResponseHandler by simp
  next
    case Bound_handleIncomingMessage
    have "\<exists>zs. suspended (fst (handleIncomingMessage cfg event w')) = suspended w' @ zs"
      by (simp add: handleIncomingMessage_def handleIncomingMessage_try_def Let_def caught_def
          respond_def generateMessageId_def postMessage_def
          split: sum.splits option.splits outcome.splits bool.splits prod.splits)
    then show ?thesis using p Bound_handleIncomingMessage
      by (auto simp add: report_hIM)
  next
    case Method_handleIncomingMessage
    then show ?thesis using p by (simp add: report_None)
  qed
qed

lemma suspended_step:
  assumes "\<exists>ys. suspended w = xs @ ys" and "\<not> settles a"
  shows "\<exists>ys. suspended (step cfg a w) = xs @ ys"
proof (cases a)
  case (Deliver ev)
  then show ?thesis using suspended_run_listeners [OF assms(1)] by (simp add: deliver_def)
next
  case (HandlerSettles i)
  then show ?thesis using assms(2) by simp
qed (use assms(1) in \<open>simp_all add: connect_def withTimeout_def sendMessage_eq addEventListener_def
      removeEventListener_def setStatus_def close_def cleanup_def timer_fires_def race_settled_def
      handshake_then_def handshake_catch_def on_def removeHandler_def addStatusListener_def
      removeStatusListener_def Let_def split: option.splits prod.splits pstate.splits\<close>)

lemma suspended_run_waits:
  assumes "list_all (\<lambda>a. \<not> settles a) acts"
  shows "\<exists>ys. suspended (exec cfg acts w) = suspended w @ ys"
proof -
  have "\<exists>ys. suspended w = xs @ ys \<Longrightarrow> \<exists>ys. suspended (exec cfg acts w) = xs @ ys" for xs
    using assms by (induction acts arbitrary: w) (simp_all add: suspended_step)
  then show ?thesis by simp
qed

text \<open>
  When the promise of a suspended handler is rejected, the run ends in the \<open>catch\<close>
  block: the reason is logged, and nothing else changes.
\<close>

lemma late_rejection_is_logged:
  assumes "i < length (suspended w)" and "suspended w ! i = (message, Fails e)"
  shows "handler_settles cfg i w =
           w\<lparr>suspended := take i (suspended w) @ drop (Suc i) (suspended w),
             console := console w @ [ConsoleError ''Error handling incoming message:'' (Thrown e)]\<rparr>"
  using assms by (simp add: handler_settles_def caught_def)

text \<open>
  A handler result that holds a function cannot be cloned by the \<open>postMessage\<close> of a
  window: the one call is made, it throws, and the error is logged.
\<close>

lemma refused_response_is_logged:
  "outbox (deliver cfg_window persist_request
             (on ''form.persist'' callback_handler (new_connector cfg_window rng0)))
     = [\<lparr>target = 1,
         msg = JObj [(''messageId'', JStr ''k3x9a''),
                     (''responseToMessageId'', JStr ''m1''),
                     (''payload'', JObj [(''onDone'', JFun 0)]),
                     (''additionalResponseExpected'', JBool False)],
         targetOrigin = None\<rparr>]
   \<and> console (deliver cfg_window persist_request
               (on ''form.persist'' callback_handler (new_connector cfg_window rng0)))
     = [ConsoleError ''Error handling incoming message:'' (DOMException ''DataCloneError'')]
   \<and> uncaught (deliver cfg_window persist_request
               (on ''form.persist'' callback_handler (new_connector cfg_window rng0))) = []"
  by (simp add: cfg_window_def window_postMessage_def callback_payload_def callback_handler_def
      persist_request_def on_def deliver_def report_def
      handleIncomingMessage_def caught_def respond_def handleIncomingMessage_try_def
      response_message_def rng0_def new_connector_def setupMessageListener_def globalWindow_def
      generateMessageId_def addEventListener_def postMessage_def Let_def)

end
